theory Spec2Isabelle
  imports Main "HOL-Library.AList"
begin

section \<open>Field descriptor model (lib/api/form)\<close>

text \<open>
  The interfaces \<^verbatim>\<open>FormField\<close>, \<^verbatim>\<open>FormSection\<close> and \<^verbatim>\<open>Form\<close>.
  The closed union of field types is a datatype; optional properties are options.
  \<^verbatim>\<open>FormFieldValidation\<close> has the single property \<^verbatim>\<open>message\<close>, so
  \<open>validation\<close> holds that message when the object is present. The lengths
  \<^verbatim>\<open>minLength\<close> and \<^verbatim>\<open>maxLength\<close> are taken to be natural numbers.
  A JavaScript string is a list of code units; the model keeps the code units below 256,
  one \<open>char\<close> each.
\<close>

datatype fieldType = FText | FTel | FEmail | FTextarea | FDate | FDropdown | FRadio | FCheckbox

record FormField =
  fieldId :: string
  ftype :: fieldType
  label :: string
  placeholder :: "string option"
  required :: bool
  dataTestId :: string
  validation :: "string option"
  options :: "(string \<times> string) list option"
  maxLength :: "nat option"
  minLength :: "nat option"

record FormSection =
  sectionId :: nat
  title :: string
  description :: string
  sectionFields :: "FormField list"

record Form =
  formTitle :: string
  formId :: string
  version :: string
  sections :: "FormSection list"

text \<open>The values a form field can hold at run time.\<close>

datatype jsval = Undefined | Null | Str string | Bool bool

section \<open>The environment of the schema compiler\<close>

text \<open>
  \<^verbatim>\<open>startOfDay(new Date())\<close>, \<^verbatim>\<open>getTimezoneOffset()\<close> and \<^verbatim>\<open>new Date(dateStr)\<close>
  read the clock, the time zone and the date parser of the host. All three are
  parameters: \<open>today\<close> is the time value (milliseconds since the epoch) of local
  midnight of the current day, \<open>tzOffset t\<close> the offset in minutes that the host reports
  for the instant \<open>t\<close>, and \<open>parseDate s\<close> the time value of the date that the engine
  makes of the string \<open>s\<close>, \<open>None\<close> when it makes an invalid date. Which strings an
  engine takes for a date is the engine's matter; the source only asks whether the
  result is a number.
\<close>

record env =
  today :: int
  tzOffset :: "int \<Rightarrow> int"
  parseDate :: "string \<Rightarrow> int option"

section \<open>Strings and patterns of the run-time library\<close>

definition isDigit :: "char \<Rightarrow> bool" where
  "isDigit c = (c \<in> set ''0123456789'')"

definition isLetter :: "char \<Rightarrow> bool" where
  "isLetter c = (c \<in> set ''abcdefghijklmnopqrstuvwxyzABCDEFGHIJKLMNOPQRSTUVWXYZ'')"

text \<open>The class \<^verbatim>\<open>\s\<close> among the code units below 256: tab, line feed, vertical tab,
  form feed, carriage return, space and the no-break space.\<close>

definition isSpace :: "char \<Rightarrow> bool" where
  "isSpace c = (c \<in> {CHR 0x09, CHR 0x0A, CHR 0x0B, CHR 0x0C, CHR 0x0D, CHR 0x20, CHR 0xA0})"

text \<open>\<^verbatim>\<open>/^[\d\s\-()+]*$/\<close>\<close>

definition telRegex :: "string \<Rightarrow> bool" where
  "telRegex s = list_all (\<lambda>c. isDigit c \<or> isSpace c \<or> c \<in> set ''-()+'') s"

text \<open>\<^verbatim>\<open>/^\d{4}-\d{2}-\d{2}$/\<close>\<close>

definition dateRegex :: "string \<Rightarrow> bool" where
  "dateRegex s =
     (case s of
        [y1, y2, y3, y4, d1, m1, m2, d2, t1, t2] \<Rightarrow>
          isDigit y1 \<and> isDigit y2 \<and> isDigit y3 \<and> isDigit y4 \<and> d1 = CHR ''-'' \<and>
          isDigit m1 \<and> isDigit m2 \<and> d2 = CHR ''-'' \<and> isDigit t1 \<and> isDigit t2
      | _ \<Rightarrow> False)"

text \<open>
  The e-mail pattern of the validation library,
  \<^verbatim>\<open>/^(?!\.)(?!.*\.\.)([A-Z0-9_'+\-\.]*)[A-Z0-9_+-]@([A-Z0-9][A-Z0-9\-]*\.)+[A-Z]{2,}$/i\<close>:
  no leading dot, no two dots in a row, a local part, one at-sign, and a domain of
  dot-separated labels that ends in at least two letters.
\<close>

fun splitOn :: "char \<Rightarrow> string \<Rightarrow> string list" where
  "splitOn c [] = [[]]"
| "splitOn c (x # xs) =
     (if x = c then [] # splitOn c xs
      else (case splitOn c xs of [] \<Rightarrow> [[x]] | p # ps \<Rightarrow> (x # p) # ps))"

fun hasDoubleDot :: "string \<Rightarrow> bool" where
  "hasDoubleDot (a # b # cs) = ((a = CHR ''.'' \<and> b = CHR ''.'') \<or> hasDoubleDot (b # cs))"
| "hasDoubleDot _ = False"

definition isDomainLabel :: "string \<Rightarrow> bool" where
  "isDomainLabel l =
     (case l of [] \<Rightarrow> False
      | c # cs \<Rightarrow> (isLetter c \<or> isDigit c) \<and>
                 list_all (\<lambda>x. isLetter x \<or> isDigit x \<or> x = CHR ''-'') cs)"

definition emailRegex :: "string \<Rightarrow> bool" where
  "emailRegex s =
     (case splitOn (CHR ''@'') s of
        [lpart, dpart] \<Rightarrow>
          lpart \<noteq> [] \<and> hd s \<noteq> CHR ''.'' \<and> \<not> hasDoubleDot s \<and>
          list_all (\<lambda>x. isLetter x \<or> isDigit x \<or> x \<in> set ''_+-.'' \<or> x = CHR 0x27) lpart \<and>
          (isLetter (last lpart) \<or> isDigit (last lpart) \<or> last lpart \<in> set ''_+-'') \<and>
          (let ps = splitOn (CHR ''.'') dpart
           in 2 \<le> length ps \<and> list_all isDomainLabel (butlast ps) \<and>
              list_all isLetter (last ps) \<and> 2 \<le> length (last ps))
      | _ \<Rightarrow> False)"

text \<open>Decimal digits of a number, as template literals print \<^verbatim>\<open>${field.minLength}\<close>.\<close>

fun showNat :: "nat \<Rightarrow> string" where
  "showNat n =
     (if n < 10 then [''0123456789'' ! n]
      else showNat (n div 10) @ [''0123456789'' ! (n mod 10)])"

declare showNat.simps [simp del]

section \<open>The validation library: schemas and parsing\<close>

text \<open>
  A schema of the validation library is a tree: a string schema carries its checks in
  the order in which \<^verbatim>\<open>.min\<close>, \<^verbatim>\<open>.max\<close>, \<^verbatim>\<open>.email\<close> and \<^verbatim>\<open>.regex\<close> added
  them; \<^verbatim>\<open>.refine\<close> wraps a schema in an effect with a predicate and a message;
  \<^verbatim>\<open>.optional()\<close> and \<^verbatim>\<open>.default(v)\<close> wrap it once more.
\<close>

datatype zcheck =
    Min nat string
  | Max nat string
  | EmailCheck string
  | Regex "string \<Rightarrow> bool" string

datatype zschema =
    ZodAny
  | ZodString "zcheck list"
  | ZodBoolean
  | ZodEffects zschema "jsval \<Rightarrow> bool" string
  | ZodOptional zschema
  | ZodDefault zschema jsval

text \<open>The three outcomes of parsing: valid, dirty (issues were added, parsing went on)
  and aborted (a value of the wrong type; wrappers stop).\<close>

datatype zstatus = Valid | Dirty | Aborted

fun checkIssue :: "string \<Rightarrow> zcheck \<Rightarrow> string list" where
  "checkIssue s (Min n msg) = (if length s < n then [msg] else [])"
| "checkIssue s (Max n msg) = (if length s > n then [msg] else [])"
| "checkIssue s (EmailCheck msg) = (if \<not> emailRegex s then [msg] else [])"
| "checkIssue s (Regex r msg) = (if \<not> r s then [msg] else [])"

definition jsTypeOf :: "jsval \<Rightarrow> string" where
  "jsTypeOf v = (case v of Undefined \<Rightarrow> ''undefined'' | Null \<Rightarrow> ''null''
                 | Str _ \<Rightarrow> ''string'' | Bool _ \<Rightarrow> ''boolean'')"

definition invalidType :: "string \<Rightarrow> jsval \<Rightarrow> string" where
  "invalidType expected v =
     (if v = Undefined then ''Required''
      else ''Expected '' @ expected @ '', received '' @ jsTypeOf v)"

text \<open>
  \<open>parse sch v\<close> is the status, the parsed value and the messages of the issues, in
  the order in which they are raised. A string schema runs every check, also after one
  has failed; a refinement runs unless the inner schema aborted.
\<close>

fun parse :: "zschema \<Rightarrow> jsval \<Rightarrow> zstatus \<times> jsval \<times> string list" where
  "parse ZodAny v = (Valid, v, [])"
| "parse (ZodString cs) v =
     (case v of
        Str s \<Rightarrow> (let msgs = concat (map (checkIssue s) cs)
                  in (if msgs = [] then Valid else Dirty, v, msgs))
      | _ \<Rightarrow> (Aborted, v, [invalidType ''string'' v]))"
| "parse ZodBoolean v =
     (case v of
        Bool b \<Rightarrow> (Valid, v, [])
      | _ \<Rightarrow> (Aborted, v, [invalidType ''boolean'' v]))"
| "parse (ZodEffects inner p msg) v =
     (case parse inner v of
        (Aborted, w, msgs) \<Rightarrow> (Aborted, w, msgs)
      | (st, w, msgs) \<Rightarrow> (if p w then (st, w, msgs) else (Dirty, w, msgs @ [msg])))"
| "parse (ZodOptional inner) v =
     (if v = Undefined then (Valid, Undefined, []) else parse inner v)"
| "parse (ZodDefault inner d) v =
     (if v = Undefined then parse inner d else parse inner v)"

definition issues :: "zschema \<Rightarrow> jsval \<Rightarrow> string list" where
  "issues sch v = snd (snd (parse sch v))"

text \<open>The methods \<^verbatim>\<open>.min\<close> and \<^verbatim>\<open>.max\<close> exist on string schemas.\<close>

definition zmin :: "nat \<Rightarrow> string \<Rightarrow> zschema \<Rightarrow> zschema" where
  "zmin n msg sch = (case sch of ZodString cs \<Rightarrow> ZodString (cs @ [Min n msg]) | _ \<Rightarrow> sch)"

definition zmax :: "nat \<Rightarrow> string \<Rightarrow> zschema \<Rightarrow> zschema" where
  "zmax n msg sch = (case sch of ZodString cs \<Rightarrow> ZodString (cs @ [Max n msg]) | _ \<Rightarrow> sch)"

definition isZodString :: "zschema \<Rightarrow> bool" where
  "isZodString sch = (case sch of ZodString _ \<Rightarrow> True | _ \<Rightarrow> False)"

text \<open>\<^verbatim>\<open>_def.typeName.includes('Optional')\<close>: of the type names, only that of the
  optional wrapper contains the word.\<close>

definition typeNameIncludesOptional :: "zschema \<Rightarrow> bool" where
  "typeNameIncludesOptional sch = (case sch of ZodOptional _ \<Rightarrow> True | _ \<Rightarrow> False)"

section \<open>The schema compiler: buildSchema\<close>

text \<open>\<^verbatim>\<open>field.validation?.message || dflt\<close>: an absent and an empty message both give
  the default.\<close>

definition messageOr :: "FormField \<Rightarrow> string \<Rightarrow> string" where
  "messageOr field dflt =
     (case validation field of None \<Rightarrow> dflt | Some m \<Rightarrow> (if m = [] then dflt else m))"

definition minMessage :: "FormField \<Rightarrow> nat \<Rightarrow> string" where
  "minMessage field n = label field @ '' must be at least '' @ showNat n @ '' characters''"

definition maxMessage :: "FormField \<Rightarrow> nat \<Rightarrow> string" where
  "maxMessage field n = label field @ '' cannot exceed '' @ showNat n @ '' characters''"

definition requiredMessage :: "FormField \<Rightarrow> string" where
  "requiredMessage field = messageOr field (label field @ '' is required'')"

text \<open>The two \<^verbatim>\<open>if\<close> statements on \<^verbatim>\<open>minLength\<close> and \<^verbatim>\<open>maxLength\<close>, shared by the
  text and the telephone cases.\<close>

definition withLengths :: "FormField \<Rightarrow> zschema \<Rightarrow> zschema" where
  "withLengths field sch =
     (let s1 = (case minLength field of None \<Rightarrow> sch
                | Some n \<Rightarrow> zmin n (minMessage field n) sch)
      in (case maxLength field of None \<Rightarrow> s1
          | Some n \<Rightarrow> zmax n (maxMessage field n) s1))"

text \<open>The refinement of a date field: the format once more, then the date that the
  engine reads, moved by the time-zone offset, against today.\<close>

definition notFuture :: "env \<Rightarrow> jsval \<Rightarrow> bool" where
  "notFuture e v =
     (case v of
        Str dateStr \<Rightarrow>
          (if \<not> dateRegex dateStr then False
           else (case parseDate e dateStr of
                   None \<Rightarrow> False
                 | Some t \<Rightarrow> t + tzOffset e t * 60000 \<le> today e))
      | _ \<Rightarrow> False)"

text \<open>The \<^verbatim>\<open>switch\<close> on the field type.\<close>

definition typeSchema :: "env \<Rightarrow> FormField \<Rightarrow> zschema" where
  "typeSchema e field =
     (case ftype field of
        FText \<Rightarrow> withLengths field (ZodString [])
      | FTextarea \<Rightarrow> withLengths field (ZodString [])
      | FEmail \<Rightarrow> ZodString [EmailCheck (messageOr field ''Invalid email address'')]
      | FTel \<Rightarrow>
          withLengths field
            (ZodString [Regex telRegex (messageOr field ''Invalid phone number format'')])
      | FDate \<Rightarrow>
          ZodEffects
            (ZodString [Regex dateRegex (messageOr field ''Invalid date format (YYYY-MM-DD)'')])
            (notFuture e)
            (messageOr field (label field @ '' cannot be a future date''))
      | FDropdown \<Rightarrow> ZodString []
      | FRadio \<Rightarrow> ZodString []
      | FCheckbox \<Rightarrow>
          (if required field
           then ZodEffects ZodBoolean (\<lambda>val. val = Bool True) (requiredMessage field)
           else ZodDefault (ZodOptional ZodBoolean) (Bool False)))"

text \<open>The required and optional wrappers that follow the \<^verbatim>\<open>switch\<close>.\<close>

definition fieldSchema :: "env \<Rightarrow> FormField \<Rightarrow> zschema" where
  "fieldSchema e field =
     (let sch = typeSchema e field
      in if required field \<and> ftype field \<noteq> FCheckbox then
           (if isZodString sch then zmin 1 (requiredMessage field) sch
            else ZodEffects sch (\<lambda>val. val \<noteq> Null \<and> val \<noteq> Undefined \<and> val \<noteq> Str [])
                   (requiredMessage field))
         else if \<not> required field \<and> ftype field \<noteq> FCheckbox then
           (if \<not> typeNameIncludesOptional sch then ZodOptional sch else sch)
         else sch)"

text \<open>A JavaScript object is an association list in insertion order; an assignment to
  a key that is present replaces its value in place.\<close>

type_synonym 'a jsobject = "(string \<times> 'a) list"

definition allFields :: "FormSection list \<Rightarrow> FormField list" where
  "allFields secs = concat (map sectionFields secs)"

definition buildSchema :: "env \<Rightarrow> FormSection list \<Rightarrow> zschema jsobject" where
  "buildSchema e secs =
     foldl (\<lambda>schemaShape section.
              foldl (\<lambda>shape field. AList.update (fieldId field) (fieldSchema e field) shape)
                schemaShape (sectionFields section))
       [] secs"

section \<open>The default-value synthesizer: generateDefaultValues\<close>

definition defaultOf :: "FormField \<Rightarrow> jsval" where
  "defaultOf field = (if ftype field = FCheckbox then Bool False else Str [])"

definition generateDefaultValues :: "Form \<Rightarrow> jsval jsobject" where
  "generateDefaultValues formStructure =
     foldl (\<lambda>defaults section.
              foldl (\<lambda>d field. AList.update (fieldId field) (defaultOf field) d)
                defaults (sectionFields section))
       [] (sections formStructure)"

section \<open>The form library: values, resolver and trigger\<close>

text \<open>
  The form library keeps the values and the errors of the form, each an object keyed by
  field name. Its resolver parses the whole object of values against the object schema:
  every key of the shape is parsed on the value stored under it (\<^verbatim>\<open>undefined\<close> when
  the key is absent), and the first issue of a key becomes the error of that field.
  The errors read after a trigger are those the trigger has just stored.
\<close>

record engine =
  currentSectionIndex :: int
  formValues :: "jsval jsobject"
  formErrors :: "string jsobject"

datatype effect =
    Toast string string
  | CollectedFormData "jsval jsobject"

datatype jsError = TypeError

definition getValue :: "jsval jsobject \<Rightarrow> string \<Rightarrow> jsval" where
  "getValue vals k = (case map_of vals k of None \<Rightarrow> Undefined | Some v \<Rightarrow> v)"

definition firstIssue :: "zschema \<Rightarrow> jsval \<Rightarrow> string option" where
  "firstIssue sch v = (case issues sch v of [] \<Rightarrow> None | m # _ \<Rightarrow> Some m)"

definition resolver :: "zschema jsobject \<Rightarrow> jsval jsobject \<Rightarrow> string jsobject" where
  "resolver shape vals =
     List.map_filter
       (\<lambda>(k, sch). map_option (Pair k) (firstIssue sch (getValue vals k))) shape"

definition hasError :: "string jsobject \<Rightarrow> string \<Rightarrow> bool" where
  "hasError errs name = (map_of errs name \<noteq> None)"

text \<open>\<^verbatim>\<open>form.trigger(names)\<close>: the resolver runs on all values, the stored errors change
  for the named fields only, and the result tells whether none of them has an error.\<close>

definition triggerFields :: "zschema jsobject \<Rightarrow> string list \<Rightarrow> engine \<Rightarrow> engine \<times> bool" where
  "triggerFields shape names st =
     (let errs = resolver shape (formValues st);
          stored = foldl (\<lambda>acc name.
                      (case map_of errs name of
                         Some m \<Rightarrow> AList.update name m acc
                       | None \<Rightarrow> AList.delete name acc))
                    (formErrors st) names
      in (st\<lparr>formErrors := stored\<rparr>, \<not> list_ex (hasError errs) names))"

text \<open>\<^verbatim>\<open>form.trigger()\<close>: all errors are replaced, and the form is valid when the
  resolver found none.\<close>

definition triggerAll :: "zschema jsobject \<Rightarrow> engine \<Rightarrow> engine \<times> bool" where
  "triggerAll shape st =
     (let errs = resolver shape (formValues st)
      in (st\<lparr>formErrors := errs\<rparr>, errs = []))"

section \<open>The form engine: DynamicForm\<close>

definition initialState :: "Form \<Rightarrow> engine" where
  "initialState formStructure =
     \<lparr>currentSectionIndex = 0,
      formValues = generateDefaultValues formStructure,
      formErrors = []\<rparr>"

text \<open>A change of a field stores the value and, in mode \<^verbatim>\<open>onChange\<close>, validates that
  field.\<close>

definition updateField :: "env \<Rightarrow> Form \<Rightarrow> string \<Rightarrow> jsval \<Rightarrow> engine \<Rightarrow> engine" where
  "updateField e formStructure name v st =
     fst (triggerFields (buildSchema e (sections formStructure)) [name]
            (st\<lparr>formValues := AList.update name v (formValues st)\<rparr>))"

text \<open>
  \<^verbatim>\<open>handleNext\<close>. \<^verbatim>\<open>currentSection\<close> is \<^verbatim>\<open>sections[currentSectionIndex]\<close>; out of
  range it is \<^verbatim>\<open>undefined\<close> and reading its fields throws. Scrolling is left out.
\<close>

definition handleNext :: "env \<Rightarrow> Form \<Rightarrow> engine \<Rightarrow> jsError + engine \<times> effect list" where
  "handleNext e formStructure st =
     (let i = currentSectionIndex st;
          secs = sections formStructure;
          totalSections = int (length secs)
      in if i < 0 \<or> totalSections \<le> i then Inl TypeError
         else
           (let currentSection = secs ! nat i;
                fieldsToValidate = map fieldId (sectionFields currentSection);
                (st', isValid) = triggerFields (buildSchema e secs) fieldsToValidate st
            in if isValid \<and> i < totalSections - 1 then
                 Inr (st'\<lparr>currentSectionIndex := i + 1\<rparr>, [])
               else if \<not> isValid then
                 Inr (st', [Toast ''Validation Error''
                   ''Please fix the errors in the current section before proceeding.''])
               else Inr (st', [])))"

definition handlePrev :: "engine \<Rightarrow> engine" where
  "handlePrev st =
     (if currentSectionIndex st > 0
      then st\<lparr>currentSectionIndex := currentSectionIndex st - 1\<rparr> else st)"

text \<open>The loop of \<^verbatim>\<open>onSubmit\<close> that looks for the first section with an error; the
  counter \<open>i\<close> runs along the sections, and \<open>-1\<close> is the answer when the loop ends
  without a \<^verbatim>\<open>break\<close>.\<close>

definition sectionHasError :: "string jsobject \<Rightarrow> FormSection \<Rightarrow> bool" where
  "sectionHasError errs section =
     list_ex (hasError errs) (map fieldId (sectionFields section))"

fun firstErrorSectionFrom :: "string jsobject \<Rightarrow> FormSection list \<Rightarrow> int \<Rightarrow> int" where
  "firstErrorSectionFrom errs [] i = - 1"
| "firstErrorSectionFrom errs (section # rest) i =
     (if sectionHasError errs section then i else firstErrorSectionFrom errs rest (i + 1))"

definition onSubmit :: "env \<Rightarrow> Form \<Rightarrow> engine \<Rightarrow> engine \<times> effect list" where
  "onSubmit e formStructure st =
     (let (st', isFormValid) = triggerAll (buildSchema e (sections formStructure)) st
      in if \<not> isFormValid then
           (let firstErrorSectionIndex =
                  firstErrorSectionFrom (formErrors st') (sections formStructure) 0
            in (if firstErrorSectionIndex \<noteq> - 1 \<and>
                   firstErrorSectionIndex \<noteq> currentSectionIndex st
                then st'\<lparr>currentSectionIndex := firstErrorSectionIndex\<rparr> else st',
                [Toast ''Submission Failed'' ''Please fix the errors in the form.'']))
         else
           (\<lparr>currentSectionIndex = 0,
             formValues = generateDefaultValues formStructure,
             formErrors = []\<rparr>,
            [CollectedFormData (formValues st'),
             Toast ''Success!'' ''Form submitted successfully!'']))"

text \<open>Pressing Next several times, and filling in a list of fields one after the other.\<close>

fun repeatNext :: "env \<Rightarrow> Form \<Rightarrow> nat \<Rightarrow> engine \<Rightarrow> jsError + engine \<times> effect list" where
  "repeatNext e formStructure 0 st = Inr (st, [])"
| "repeatNext e formStructure (Suc k) st =
     (case handleNext e formStructure st of
        Inl err \<Rightarrow> Inl err
      | Inr (st', fx) \<Rightarrow>
          (case repeatNext e formStructure k st' of
             Inl err \<Rightarrow> Inl err
           | Inr (st'', fx') \<Rightarrow> Inr (st'', fx @ fx')))"

definition fillAll :: "env \<Rightarrow> Form \<Rightarrow> (string \<times> jsval) list \<Rightarrow> engine \<Rightarrow> engine" where
  "fillAll e formStructure entries st =
     foldl (\<lambda>s (name, v). updateField e formStructure name v s) st entries"

text \<open>The invariant of the navigation state.\<close>

definition indexInRange :: "Form \<Rightarrow> engine \<Rightarrow> bool" where
  "indexInRange formStructure st =
     (0 \<le> currentSectionIndex st \<and>
      currentSectionIndex st < int (length (sections formStructure)))"

section \<open>Acceptance, and the constraints of the specification\<close>

text \<open>A schema accepts a value when parsing raises no issue.\<close>

definition accepts :: "zschema \<Rightarrow> jsval \<Rightarrow> bool" where
  "accepts sch v = (issues sch v = [])"

text \<open>The issues of the two length checks and of the check for a required string, as
  lists of at most one message each.\<close>

definition lengthIssues :: "FormField \<Rightarrow> string \<Rightarrow> string list" where
  "lengthIssues field s =
     (case minLength field of None \<Rightarrow> []
      | Some n \<Rightarrow> if length s < n then [minMessage field n] else []) @
     (case maxLength field of None \<Rightarrow> []
      | Some n \<Rightarrow> if length s > n then [maxMessage field n] else [])"

definition requiredIssue :: "FormField \<Rightarrow> string \<Rightarrow> string list" where
  "requiredIssue field s = (if required field \<and> s = [] then [requiredMessage field] else [])"




text \<open>The checks that \<open>withLengths\<close> appends to a string schema.\<close>

definition lengthChecks :: "FormField \<Rightarrow> zcheck list" where
  "lengthChecks field =
     (case minLength field of None \<Rightarrow> [] | Some n \<Rightarrow> [Min n (minMessage field n)]) @
     (case maxLength field of None \<Rightarrow> [] | Some n \<Rightarrow> [Max n (maxMessage field n)])"

section \<open>Sample hosts and descriptors\<close>

text \<open>
  An engine for the sample hosts: it reads the date-only form as midnight UTC, takes a
  month from 1 to 12 and a day from 1 to 31, and carries a day beyond the end of the
  month over into the next month; of every other string it makes an invalid date.
  Engines differ on a day that the month does not have; the theorems on the compiled
  rules hold for every engine.
\<close>

definition digitVal :: "char \<Rightarrow> int" where
  "digitVal c = int (of_char c) - 48"

definition daysFromCivil :: "int \<Rightarrow> int \<Rightarrow> int \<Rightarrow> int" where
  "daysFromCivil y m d =
     (let y' = (if m \<le> 2 then y - 1 else y);
          era = y' div 400;
          yoe = y' - era * 400;
          doy = (153 * (if m > 2 then m - 3 else m + 9) + 2) div 5 + d - 1;
          doe = yoe * 365 + yoe div 4 - yoe div 100 + doy
      in era * 146097 + doe - 719468)"

definition rollOverDate :: "string \<Rightarrow> int option" where
  "rollOverDate s =
     (case s of
        [y1, y2, y3, y4, d1, m1, m2, d2, t1, t2] \<Rightarrow>
          (let y = 1000 * digitVal y1 + 100 * digitVal y2 + 10 * digitVal y3 + digitVal y4;
               m = 10 * digitVal m1 + digitVal m2;
               d = 10 * digitVal t1 + digitVal t2
           in if dateRegex s \<and> 1 \<le> m \<and> m \<le> 12 \<and> 1 \<le> d \<and> d \<le> 31
              then Some (daysFromCivil y m d * 86400000) else None)
      | _ \<Rightarrow> None)"

text \<open>
  Two hosts. The first has no time-zone offset and its clock shows 2026-11-03. The
  second is in a zone that is eleven hours ahead of UTC until 2026-04-04 16:00 UTC and
  ten hours ahead from then on (the end of daylight saving time, at three o'clock at
  night on 2026-04-05 local time); its clock shows 2026-04-05, whose local midnight is
  2026-04-04 13:00 UTC.
\<close>

definition utcEnv :: env where
  "utcEnv = \<lparr>today = 1793664000000, tzOffset = (\<lambda>t. 0), parseDate = rollOverDate\<rparr>"


definition sampleText :: FormField where
  "sampleText =
     \<lparr>fieldId = ''name'', ftype = FText, label = ''Name'', placeholder = None,
      required = True, dataTestId = ''name'', validation = None, options = None,
      maxLength = None, minLength = None\<rparr>"

definition sampleAgree :: FormField where
  "sampleAgree = sampleText\<lparr>fieldId := ''agree'', ftype := FCheckbox, label := ''Agree''\<rparr>"

definition sampleCity :: FormField where
  "sampleCity = sampleText\<lparr>fieldId := ''city'', ftype := FDropdown, label := ''City''\<rparr>"

definition sampleSection :: "nat \<Rightarrow> FormField list \<Rightarrow> FormSection" where
  "sampleSection n fs =
     \<lparr>sectionId = n, title = ''Section'', description = [], sectionFields = fs\<rparr>"

definition sampleForm :: Form where
  "sampleForm =
     \<lparr>formTitle = ''Sample'', formId = ''f1'', version = ''1'',
      sections = [sampleSection 1 [sampleText], sampleSection 2 [sampleCity],
                  sampleSection 3 [sampleAgree]]\<rparr>"

text \<open>A descriptor that breaks the uniqueness of fieldIds: a text field and, in the next
  section, a checkbox with the same fieldId.\<close>

definition sampleClash :: FormField where
  "sampleClash = sampleText\<lparr>ftype := FCheckbox, label := ''Clash''\<rparr>"

definition duplicateForm :: Form where
  "duplicateForm =
     \<lparr>formTitle = ''Duplicate'', formId = ''f2'', version = ''1'',
      sections = [sampleSection 1 [sampleText], sampleSection 2 [sampleClash]]\<rparr>"

text \<open>A state on the last section in which the fields of the first and of the last
  section are invalid, and the answers of a completely filled form.\<close>

definition spanningState :: engine where
  "spanningState =
     \<lparr>currentSectionIndex = 2,
      formValues = [(''name'', Str []), (''city'', Str ''Pune''), (''agree'', Bool False)],
      formErrors = []\<rparr>"

definition filledEntries :: "(string \<times> jsval) list" where
  "filledEntries = [(''name'', Str ''Ann''), (''city'', Str ''Pune''), (''agree'', Bool True)]"

text \<open>A state on the first section whose own field is valid while the fields of the
  later sections are not, and a descriptor with a single section.\<close>

definition firstState :: engine where
  "firstState =
     \<lparr>currentSectionIndex = 0,
      formValues = [(''name'', Str ''Ann''), (''city'', Str []), (''agree'', Bool False)],
      formErrors = []\<rparr>"

definition singleForm :: Form where
  "singleForm =
     \<lparr>formTitle = ''Single'', formId = ''f3'', version = ''1'',
      sections = [sampleSection 1 [sampleText]]\<rparr>"

text \<open>Fields for the validation rules: a required e-mail and a required date without a
  message of their own, a text field with a minimal length and a message, an e-mail field
  whose message is the empty string, and three fields that are not required.\<close>

definition sampleEmail :: FormField where
  "sampleEmail = sampleText\<lparr>fieldId := ''email'', ftype := FEmail, label := ''Email''\<rparr>"

definition sampleDate :: FormField where
  "sampleDate = sampleText\<lparr>fieldId := ''born'', ftype := FDate, label := ''Birthday''\<rparr>"

definition shortName :: FormField where
  "shortName = sampleText\<lparr>minLength := Some 3, validation := Some ''Bad''\<rparr>"

definition emptyMessageEmail :: FormField where
  "emptyMessageEmail = sampleEmail\<lparr>validation := Some []\<rparr>"

definition optionalEmail :: FormField where
  "optionalEmail = sampleEmail\<lparr>required := False\<rparr>"

definition optionalDate :: FormField where
  "optionalDate = sampleDate\<lparr>required := False\<rparr>"

definition optionalNick :: FormField where
  "optionalNick =
     sampleText\<lparr>fieldId := ''nick'', label := ''Nick'', required := False,
       minLength := Some 3\<rparr>"

text \<open>Two more fields with a message of their own: an e-mail field, and a text field
  with a maximal length.\<close>

definition messageEmail :: FormField where
  "messageEmail = sampleEmail\<lparr>validation := Some ''Bad mail''\<rparr>"

definition cappedName :: FormField where
  "cappedName = sampleText\<lparr>maxLength := Some 2, validation := Some ''Bad''\<rparr>"

section \<open>Objects built by repeated assignment\<close>

lemma foldl_nested_concat:
  "foldl (\<lambda>a s. foldl f a (g s)) a ss = foldl f a (concat (map g ss))"
  by (induction ss arbitrary: a) simp_all

lemma buildSchema_flat:
  "buildSchema e secs =
     foldl (\<lambda>shape field. AList.update (fieldId field) (fieldSchema e field) shape) []
       (allFields secs)"
  by (simp add: buildSchema_def allFields_def foldl_nested_concat)

lemma generateDefaultValues_flat:
  "generateDefaultValues formStructure =
     foldl (\<lambda>d field. AList.update (fieldId field) (defaultOf field) d) []
       (allFields (sections formStructure))"
  by (simp add: generateDefaultValues_def allFields_def foldl_nested_concat)

lemma assign_keys:
  "fst ` set (foldl (\<lambda>acc x. AList.update (k x) (v x) acc) init xs) =
     fst ` set init \<union> k ` set xs"
  by (induction xs arbitrary: init) (auto simp: dom_update)

lemma assign_distinct:
  "distinct (map fst init) \<Longrightarrow>
   distinct (map fst (foldl (\<lambda>acc x. AList.update (k x) (v x) acc) init xs))"
  by (induction xs arbitrary: init) (simp_all add: distinct_update)

lemma assign_lookup_other:
  "key \<notin> k ` set xs \<Longrightarrow>
   map_of (foldl (\<lambda>acc x. AList.update (k x) (v x) acc) init xs) key = map_of init key"
  by (induction xs arbitrary: init) (simp_all add: update_conv')

lemma assign_lookup_last:
  "k x \<notin> k ` set post \<Longrightarrow>
   map_of (foldl (\<lambda>acc y. AList.update (k y) (v y) acc) init (pre @ x # post)) (k x) =
     Some (v x)"
  by (simp add: assign_lookup_other update_conv')

lemma assign_lookup_distinct:
  assumes "distinct (map k xs)" and "x \<in> set xs"
  shows "map_of (foldl (\<lambda>acc y. AList.update (k y) (v y) acc) init xs) (k x) = Some (v x)"
proof -
  from assms(2) obtain pre post where xs: "xs = pre @ x # post"
    by (auto simp: in_set_conv_decomp)
  with assms(1) have "k x \<notin> k ` set post" by auto
  then show ?thesis unfolding xs by (rule assign_lookup_last)
qed

section \<open>The default-value synthesizer\<close>

text \<open>
  Claim C7. The synthesized defaults hold exactly one entry for every fieldId of the
  descriptor; when the fieldIds of the descriptor are unique, as the data model asks,
  every checkbox field maps to \<^verbatim>\<open>false\<close> and every other field to the empty string.
\<close>

theorem defaults_one_entry_per_field:
  "distinct (map fst (generateDefaultValues formStructure)) \<and>
   set (map fst (generateDefaultValues formStructure)) =
     set (map fieldId (allFields (sections formStructure))) \<and>
   (distinct (map fieldId (allFields (sections formStructure))) \<longrightarrow>
     (\<forall>field \<in> set (allFields (sections formStructure)).
        map_of (generateDefaultValues formStructure) (fieldId field) =
          Some (if ftype field = FCheckbox then Bool False else Str [])))"
proof (intro conjI impI ballI)
  show "distinct (map fst (generateDefaultValues formStructure))"
    unfolding generateDefaultValues_flat by (rule assign_distinct) simp
  show "set (map fst (generateDefaultValues formStructure)) =
        set (map fieldId (allFields (sections formStructure)))"
    unfolding generateDefaultValues_flat set_map assign_keys by simp
next
  fix field
  assume "distinct (map fieldId (allFields (sections formStructure)))"
    and "field \<in> set (allFields (sections formStructure))"
  then have "map_of (generateDefaultValues formStructure) (fieldId field) =
      Some (defaultOf field)"
    unfolding generateDefaultValues_flat by (rule assign_lookup_distinct)
  then show "map_of (generateDefaultValues formStructure) (fieldId field) =
          Some (if ftype field = FCheckbox then Bool False else Str [])"
    by (simp add: defaultOf_def)
qed

theorem defaults_one_entry_per_field_witness:
  "distinct (map fieldId (allFields (sections sampleForm))) \<and>
   sampleAgree \<in> set (allFields (sections sampleForm)) \<and>
   sampleText \<in> set (allFields (sections sampleForm)) \<and>
   map_of (generateDefaultValues sampleForm) ''agree'' = Some (Bool False) \<and>
   map_of (generateDefaultValues sampleForm) ''name'' = Some (Str [])"
proof -
  have d: "distinct (map fieldId (allFields (sections sampleForm)))"
    by (simp add: sampleForm_def sampleSection_def allFields_def sampleText_def
        sampleCity_def sampleAgree_def)
  have a: "sampleAgree \<in> set (allFields (sections sampleForm))"
    and t: "sampleText \<in> set (allFields (sections sampleForm))"
    by (simp_all add: sampleForm_def sampleSection_def allFields_def)
  from defaults_one_entry_per_field[of sampleForm] d
  have all: "\<forall>field \<in> set (allFields (sections sampleForm)).
        map_of (generateDefaultValues sampleForm) (fieldId field) =
          Some (if ftype field = FCheckbox then Bool False else Str [])"
    by blast
  from all a have "map_of (generateDefaultValues sampleForm) (fieldId sampleAgree) =
      Some (if ftype sampleAgree = FCheckbox then Bool False else Str [])" by blast
  moreover from all t have "map_of (generateDefaultValues sampleForm) (fieldId sampleText) =
      Some (if ftype sampleText = FCheckbox then Bool False else Str [])" by blast
  ultimately show ?thesis using d a t
    by (simp add: sampleAgree_def sampleText_def)
qed

section \<open>The resolver, key by key\<close>

lemma resolver_Nil: "resolver [] vals = []"
  by (simp add: resolver_def)

lemma resolver_Cons:
  "resolver ((k, sch) # shape) vals =
     (case firstIssue sch (getValue vals k) of
        None \<Rightarrow> resolver shape vals
      | Some m \<Rightarrow> (k, m) # resolver shape vals)"
  by (simp add: resolver_def List.map_filter_simps split: option.splits)

lemma resolver_keys: "fst ` set (resolver shape vals) \<subseteq> fst ` set shape"
proof (induction shape)
  case Nil
  show ?case by (simp add: resolver_Nil)
next
  case (Cons p shape)
  obtain k sch where p: "p = (k, sch)" by (cases p)
  from Cons show ?case
    unfolding p resolver_Cons by (auto split: option.splits)
qed

lemma resolver_lookup:
  "distinct (map fst shape) \<Longrightarrow>
   map_of (resolver shape vals) k =
     (case map_of shape k of None \<Rightarrow> None | Some sch \<Rightarrow> firstIssue sch (getValue vals k))"
proof (induction shape)
  case Nil
  show ?case by (simp add: resolver_Nil)
next
  case (Cons p shape)
  obtain k' sch' where p: "p = (k', sch')" by (cases p)
  from Cons.prems have fresh: "k' \<notin> fst ` set shape" and d: "distinct (map fst shape)"
    by (simp_all add: p)
  from fresh resolver_keys[of shape vals] have "k' \<notin> fst ` set (resolver shape vals)"
    by blast
  then have none: "map_of (resolver shape vals) k' = None"
    by (simp add: map_of_eq_None_iff)
  show ?case
  proof (cases "k = k'")
    case True
    with none show ?thesis
      unfolding p resolver_Cons by (simp split: option.splits)
  next
    case False
    with Cons.IH[OF d] show ?thesis
      unfolding p resolver_Cons by (simp split: option.splits)
  qed
qed

lemma buildSchema_distinct: "distinct (map fst (buildSchema e secs))"
  unfolding buildSchema_flat by (rule assign_distinct) simp

lemma buildSchema_keys: "fst ` set (buildSchema e secs) = fieldId ` set (allFields secs)"
  unfolding buildSchema_flat assign_keys by simp

lemma buildSchema_lookup_last:
  assumes "allFields secs = pre @ field # post" and "fieldId field \<notin> fieldId ` set post"
  shows "map_of (buildSchema e secs) (fieldId field) = Some (fieldSchema e field)"
  unfolding buildSchema_flat assms(1) using assms(2)
  by (rule assign_lookup_last[where k = fieldId and v = "fieldSchema e"])

lemma buildSchema_lookup_distinct:
  "distinct (map fieldId (allFields secs)) \<Longrightarrow> field \<in> set (allFields secs) \<Longrightarrow>
   map_of (buildSchema e secs) (fieldId field) = Some (fieldSchema e field)"
  unfolding buildSchema_flat by (rule assign_lookup_distinct)

lemma resolver_buildSchema_last:
  "allFields secs = pre @ field # post \<Longrightarrow> fieldId field \<notin> fieldId ` set post \<Longrightarrow>
   map_of (resolver (buildSchema e secs) vals) (fieldId field) =
     firstIssue (fieldSchema e field) (getValue vals (fieldId field))"
  by (simp add: resolver_lookup buildSchema_distinct buildSchema_lookup_last)

section \<open>Fields that share a fieldId\<close>

text \<open>
  Claim C10. When several fields of the form share a fieldId, the schema compiler and
  the default-value synthesizer keep one entry for that fieldId, that of the last such
  field in section-then-field order: the compiled shape holds the rule of the later
  field, the validator reports for that fieldId what the later field's rule finds, and
  the defaults hold the later field's default. Both functions return their object;
  neither has a failing branch.
\<close>

theorem duplicate_fieldId_last_wins:
  assumes "allFields (sections formStructure) = pre @ field # post"
    and "fieldId field \<notin> fieldId ` set post"
  shows "map_of (buildSchema e (sections formStructure)) (fieldId field) =
           Some (fieldSchema e field) \<and>
         map_of (resolver (buildSchema e (sections formStructure)) vals) (fieldId field) =
           firstIssue (fieldSchema e field) (getValue vals (fieldId field)) \<and>
         map_of (generateDefaultValues formStructure) (fieldId field) =
           Some (defaultOf field) \<and>
         distinct (map fst (buildSchema e (sections formStructure))) \<and>
         distinct (map fst (generateDefaultValues formStructure))"
proof (intro conjI)
  show "map_of (buildSchema e (sections formStructure)) (fieldId field) =
      Some (fieldSchema e field)"
    using assms by (rule buildSchema_lookup_last)
  show "map_of (resolver (buildSchema e (sections formStructure)) vals) (fieldId field) =
      firstIssue (fieldSchema e field) (getValue vals (fieldId field))"
    using assms by (rule resolver_buildSchema_last)
  show "map_of (generateDefaultValues formStructure) (fieldId field) = Some (defaultOf field)"
    unfolding generateDefaultValues_flat assms(1) using assms(2) by (rule assign_lookup_last)
  show "distinct (map fst (buildSchema e (sections formStructure)))"
    by (rule buildSchema_distinct)
  show "distinct (map fst (generateDefaultValues formStructure))"
    unfolding generateDefaultValues_flat by (rule assign_distinct) simp
qed

theorem duplicate_fieldId_last_wins_witness:
  "allFields (sections duplicateForm) = [sampleText] @ sampleClash # [] \<and>
   fieldId sampleClash = fieldId sampleText \<and>
   fieldId sampleClash \<notin> fieldId ` set [] \<and>
   map_of (buildSchema utcEnv (sections duplicateForm)) ''name'' =
     Some (fieldSchema utcEnv sampleClash) \<and>
   map_of (generateDefaultValues duplicateForm) ''name'' = Some (Bool False)"
proof -
  have a: "allFields (sections duplicateForm) = [sampleText] @ sampleClash # []"
    by (simp add: duplicateForm_def allFields_def sampleSection_def)
  have b: "fieldId sampleClash \<notin> fieldId ` set []" by simp
  from duplicate_fieldId_last_wins[OF a b, of utcEnv "[]"] a show ?thesis
    by (simp add: sampleClash_def sampleText_def defaultOf_def)
qed

section \<open>Triggers and the scan for the first section with an error\<close>

lemma triggerFields_index [simp]:
  "currentSectionIndex (fst (triggerFields shape names st)) = currentSectionIndex st"
  by (simp add: triggerFields_def Let_def)

lemma triggerFields_values [simp]:
  "formValues (fst (triggerFields shape names st)) = formValues st"
  by (simp add: triggerFields_def Let_def)

lemma triggerFields_valid:
  "snd (triggerFields shape names st) =
     (\<forall>name \<in> set names. map_of (resolver shape (formValues st)) name = None)"
  by (simp add: triggerFields_def Let_def list_ex_iff hasError_def)

lemma sectionHasError_iff:
  "sectionHasError errs section =
     (\<exists>field \<in> set (sectionFields section). map_of errs (fieldId field) \<noteq> None)"
  by (simp add: sectionHasError_def list_ex_iff hasError_def)

lemma firstErrorSectionFrom_found:
  "0 \<le> i \<Longrightarrow> \<exists>s \<in> set secs. sectionHasError errs s \<Longrightarrow>
   \<exists>j < length secs. firstErrorSectionFrom errs secs i = i + int j \<and>
      sectionHasError errs (secs ! j) \<and> (\<forall>j' < j. \<not> sectionHasError errs (secs ! j'))"
proof (induction secs arbitrary: i)
  case Nil
  then show ?case by simp
next
  case (Cons s secs)
  show ?case
  proof (cases "sectionHasError errs s")
    case True
    then have "firstErrorSectionFrom errs (s # secs) i = i + int 0 \<and>
        sectionHasError errs ((s # secs) ! 0) \<and>
        (\<forall>j' < 0. \<not> sectionHasError errs ((s # secs) ! j'))"
      by simp
    then show ?thesis by blast
  next
    case False
    with Cons.prems have "\<exists>s \<in> set secs. sectionHasError errs s" by auto
    with Cons.IH[of "i + 1"] Cons.prems(1)
    obtain j where j: "j < length secs"
      "firstErrorSectionFrom errs secs (i + 1) = i + 1 + int j"
      "sectionHasError errs (secs ! j)" "\<forall>j' < j. \<not> sectionHasError errs (secs ! j')"
      by auto
    have "\<forall>j' < Suc j. \<not> sectionHasError errs ((s # secs) ! j')"
    proof (intro allI impI)
      fix j' assume "j' < Suc j"
      then show "\<not> sectionHasError errs ((s # secs) ! j')"
        using False j(4) by (cases j') simp_all
    qed
    with j False have "Suc j < length (s # secs) \<and>
        firstErrorSectionFrom errs (s # secs) i = i + int (Suc j) \<and>
        sectionHasError errs ((s # secs) ! Suc j) \<and>
        (\<forall>j' < Suc j. \<not> sectionHasError errs ((s # secs) ! j'))"
      by simp
    then show ?thesis by blast
  qed
qed

lemma firstErrorSectionFrom_range:
  "0 \<le> i \<Longrightarrow>
   firstErrorSectionFrom errs secs i = - 1 \<or>
   (i \<le> firstErrorSectionFrom errs secs i \<and>
    firstErrorSectionFrom errs secs i < i + int (length secs))"
proof (induction secs arbitrary: i)
  case Nil
  show ?case by simp
next
  case (Cons s secs)
  from Cons.IH[of "i + 1"] Cons.prems show ?case by auto
qed

lemma errors_name_a_section:
  assumes "resolver (buildSchema e secs) vals \<noteq> []"
  shows "\<exists>s \<in> set secs. sectionHasError (resolver (buildSchema e secs) vals) s"
proof -
  from assms obtain k m where km: "(k, m) \<in> set (resolver (buildSchema e secs) vals)"
    by (cases "resolver (buildSchema e secs) vals") auto
  then have k: "k \<in> fst ` set (resolver (buildSchema e secs) vals)"
    by force
  with resolver_keys[of "buildSchema e secs" vals]
  have "k \<in> fieldId ` set (allFields secs)"
    unfolding buildSchema_keys by blast
  then obtain s field where s: "s \<in> set secs" and f: "field \<in> set (sectionFields s)"
    and id: "k = fieldId field"
    by (auto simp: allFields_def)
  from k have "map_of (resolver (buildSchema e secs) vals) k \<noteq> None"
    by (simp add: map_of_eq_None_iff)
  with f id have "sectionHasError (resolver (buildSchema e secs) vals) s"
    unfolding sectionHasError_iff by blast
  with s show ?thesis by blast
qed

lemma onSubmit_invalid:
  assumes "resolver (buildSchema e (sections f)) (formValues st) \<noteq> []"
  shows "onSubmit e f st =
     (let errs = resolver (buildSchema e (sections f)) (formValues st);
          r = firstErrorSectionFrom errs (sections f) 0
      in (st\<lparr>formErrors := errs,
              currentSectionIndex :=
                (if r \<noteq> - 1 \<and> r \<noteq> currentSectionIndex st then r
                 else currentSectionIndex st)\<rparr>,
          [Toast ''Submission Failed'' ''Please fix the errors in the form.'']))"
  using assms by (simp add: onSubmit_def triggerAll_def Let_def)

lemma onSubmit_valid:
  assumes "resolver (buildSchema e (sections f)) (formValues st) = []"
  shows "onSubmit e f st =
     (initialState f,
      [CollectedFormData (formValues st), Toast ''Success!'' ''Form submitted successfully!''])"
  using assms by (simp add: onSubmit_def triggerAll_def Let_def initialState_def)

section \<open>Submission with invalid fields\<close>

text \<open>
  Claim C1. When submit is invoked and the validator reports an error for at least one
  field, there is a first section, in descriptor order, that contains a field with an
  error: no earlier section contains one. After the submit the section index is the
  index of that section (it is assigned when it differs from the current index and is
  left alone when it is equal), the answers are unchanged, and the collected answers
  are handed to no sink: the only effect is the failure notification.
\<close>

theorem submit_invalid_goes_to_first_error_section:
  assumes "resolver (buildSchema e (sections f)) (formValues st) \<noteq> []"
  shows "\<exists>j < length (sections f).
           (\<exists>field \<in> set (sectionFields (sections f ! j)).
              map_of (resolver (buildSchema e (sections f)) (formValues st))
                (fieldId field) \<noteq> None) \<and>
           (\<forall>j' < j. \<forall>field \<in> set (sectionFields (sections f ! j')).
              map_of (resolver (buildSchema e (sections f)) (formValues st))
                (fieldId field) = None) \<and>
           currentSectionIndex (fst (onSubmit e f st)) = int j \<and>
           firstErrorSectionFrom (resolver (buildSchema e (sections f)) (formValues st))
             (sections f) 0 = int j \<and>
           formValues (fst (onSubmit e f st)) = formValues st \<and>
           (\<forall>d. CollectedFormData d \<notin> set (snd (onSubmit e f st)))"
proof -
  let ?errs = "resolver (buildSchema e (sections f)) (formValues st)"
  from errors_name_a_section[OF assms]
  have "\<exists>s \<in> set (sections f). sectionHasError ?errs s" .
  with firstErrorSectionFrom_found[of 0 "sections f" ?errs]
  obtain j where j: "j < length (sections f)"
    "firstErrorSectionFrom ?errs (sections f) 0 = int j"
    "sectionHasError ?errs (sections f ! j)"
    "\<forall>j' < j. \<not> sectionHasError ?errs (sections f ! j')"
    by auto
  have idx: "currentSectionIndex (fst (onSubmit e f st)) = int j"
    unfolding onSubmit_invalid[OF assms] using j(2) by (simp add: Let_def)
  have vals: "formValues (fst (onSubmit e f st)) = formValues st"
    unfolding onSubmit_invalid[OF assms] by (simp add: Let_def)
  have fx: "\<forall>d. CollectedFormData d \<notin> set (snd (onSubmit e f st))"
    unfolding onSubmit_invalid[OF assms] by (simp add: Let_def)
  from j(3) have here: "\<exists>field \<in> set (sectionFields (sections f ! j)).
      map_of ?errs (fieldId field) \<noteq> None"
    by (simp add: sectionHasError_iff)
  from j(4) have before: "\<forall>j' < j. \<forall>field \<in> set (sectionFields (sections f ! j')).
      map_of ?errs (fieldId field) = None"
    by (simp add: sectionHasError_iff)
  from j(1) here before idx j(2) vals fx show ?thesis by blast
qed
lemmas sample_defs =
  sampleForm_def sampleSection_def sampleText_def sampleCity_def sampleAgree_def
  spanningState_def filledEntries_def utcEnv_def

lemmas schema_defs =
  buildSchema_def fieldSchema_def typeSchema_def withLengths_def zmin_def zmax_def
  isZodString_def typeNameIncludesOptional_def requiredMessage_def messageOr_def
  minMessage_def maxMessage_def

lemmas resolver_defs =
  resolver_def List.map_filter_simps firstIssue_def issues_def getValue_def

lemma spanning_errors:
  "resolver (buildSchema utcEnv (sections sampleForm)) (formValues spanningState) =
     [(''name'', ''Name is required''), (''agree'', ''Agree is required'')]"
  by (simp add: sample_defs schema_defs resolver_defs)

theorem submit_invalid_goes_to_first_error_section_witness:
  "resolver (buildSchema utcEnv (sections sampleForm)) (formValues spanningState) \<noteq> [] \<and>
   currentSectionIndex spanningState = 2 \<and>
   currentSectionIndex (fst (onSubmit utcEnv sampleForm spanningState)) = 0"
proof -
  have h: "resolver (buildSchema utcEnv (sections sampleForm)) (formValues spanningState) \<noteq> []"
    by (simp add: spanning_errors)
  from submit_invalid_goes_to_first_error_section[OF h]
  have "currentSectionIndex (fst (onSubmit utcEnv sampleForm spanningState)) =
      firstErrorSectionFrom
        (resolver (buildSchema utcEnv (sections sampleForm)) (formValues spanningState))
        (sections sampleForm) 0"
    by auto
  also have "\<dots> = 0"
    unfolding spanning_errors
    by (simp add: sampleForm_def sampleSection_def sampleText_def sectionHasError_def hasError_def)
  finally show ?thesis using h by (simp add: spanningState_def)
qed

section \<open>Navigation\<close>

lemma handleNext_in_range:
  assumes "indexInRange f st"
  shows "handleNext e f st =
     (let names = map fieldId (sectionFields (sections f ! nat (currentSectionIndex st)));
          r = triggerFields (buildSchema e (sections f)) names st
      in if snd r \<and> currentSectionIndex st < int (length (sections f)) - 1
         then Inr ((fst r)\<lparr>currentSectionIndex := currentSectionIndex st + 1\<rparr>, [])
         else if \<not> snd r
           then Inr (fst r, [Toast ''Validation Error''
                  ''Please fix the errors in the current section before proceeding.''])
           else Inr (fst r, []))"
  using assms by (simp add: handleNext_def Let_def indexInRange_def split: prod.splits)

lemma handleNext_index:
  assumes "indexInRange f st"
  shows "\<exists>st' fx. handleNext e f st = Inr (st', fx) \<and>
     formValues st' = formValues st \<and>
     currentSectionIndex st' =
       (if (\<forall>field \<in> set (sectionFields (sections f ! nat (currentSectionIndex st))).
              map_of (resolver (buildSchema e (sections f)) (formValues st))
                (fieldId field) = None) \<and>
           currentSectionIndex st < int (length (sections f)) - 1
        then currentSectionIndex st + 1 else currentSectionIndex st)"
  unfolding handleNext_in_range[OF assms]
  by (simp add: Let_def triggerFields_valid)

lemma resolver_error_local:
  assumes "getValue vals2 k = getValue vals k"
  shows "map_of (resolver (buildSchema e secs) vals2) k =
         map_of (resolver (buildSchema e secs) vals) k"
  using assms by (simp add: resolver_lookup buildSchema_distinct split: option.splits)

text \<open>
  Claim C2. In a state whose section index is in range, navigate-next leaves the
  section index as it is whenever a field of the current section has an error; it adds
  one exactly when no field of the current section has an error and the section is not
  the last. The outcome is the same in every state with the same section index whose
  answers agree on the fieldIds of the current section, whatever the other answers are.
\<close>

theorem next_looks_at_current_section_only:
  assumes "indexInRange f st"
  shows "\<exists>st' fx. handleNext e f st = Inr (st', fx) \<and>
     currentSectionIndex st' =
       (if (\<forall>field \<in> set (sectionFields (sections f ! nat (currentSectionIndex st))).
              map_of (resolver (buildSchema e (sections f)) (formValues st))
                (fieldId field) = None) \<and>
           currentSectionIndex st < int (length (sections f)) - 1
        then currentSectionIndex st + 1 else currentSectionIndex st) \<and>
     (\<forall>st2. currentSectionIndex st2 = currentSectionIndex st \<and>
        (\<forall>field \<in> set (sectionFields (sections f ! nat (currentSectionIndex st))).
           getValue (formValues st2) (fieldId field) =
           getValue (formValues st) (fieldId field)) \<longrightarrow>
        (\<exists>st2' fx2. handleNext e f st2 = Inr (st2', fx2) \<and>
           currentSectionIndex st2' = currentSectionIndex st'))"
proof -
  let ?cur = "sectionFields (sections f ! nat (currentSectionIndex st))"
  from handleNext_index[OF assms, of e] obtain st' fx where
    n: "handleNext e f st = Inr (st', fx)" and
    i: "currentSectionIndex st' =
       (if (\<forall>field \<in> set ?cur.
              map_of (resolver (buildSchema e (sections f)) (formValues st))
                (fieldId field) = None) \<and>
           currentSectionIndex st < int (length (sections f)) - 1
        then currentSectionIndex st + 1 else currentSectionIndex st)"
    by blast
  have other: "\<exists>st2' fx2. handleNext e f st2 = Inr (st2', fx2) \<and>
           currentSectionIndex st2' = currentSectionIndex st'"
    if same: "currentSectionIndex st2 = currentSectionIndex st"
      and agree: "\<forall>field \<in> set ?cur.
           getValue (formValues st2) (fieldId field) =
           getValue (formValues st) (fieldId field)"
    for st2
  proof -
    from assms same have r2: "indexInRange f st2" by (simp add: indexInRange_def)
    from agree have errs: "\<forall>field \<in> set ?cur.
        map_of (resolver (buildSchema e (sections f)) (formValues st2)) (fieldId field) =
        map_of (resolver (buildSchema e (sections f)) (formValues st)) (fieldId field)"
    proof (intro ballI)
      fix field assume "field \<in> set ?cur"
      with agree have "getValue (formValues st2) (fieldId field) =
          getValue (formValues st) (fieldId field)" by blast
      then show "map_of (resolver (buildSchema e (sections f)) (formValues st2)) (fieldId field) =
          map_of (resolver (buildSchema e (sections f)) (formValues st)) (fieldId field)"
        by (rule resolver_error_local)
    qed
    from handleNext_index[OF r2, of e] obtain st2' fx2 where
      n2: "handleNext e f st2 = Inr (st2', fx2)" and
      i2: "currentSectionIndex st2' =
       (if (\<forall>field \<in> set (sectionFields (sections f ! nat (currentSectionIndex st2))).
              map_of (resolver (buildSchema e (sections f)) (formValues st2))
                (fieldId field) = None) \<and>
           currentSectionIndex st2 < int (length (sections f)) - 1
        then currentSectionIndex st2 + 1 else currentSectionIndex st2)"
      by blast
    from i i2 same errs have "currentSectionIndex st2' = currentSectionIndex st'"
      by simp
    with n2 show ?thesis by blast
  qed
  show ?thesis
  proof (rule exI[of _ st'], rule exI[of _ fx], intro conjI allI impI)
    show "handleNext e f st = Inr (st', fx)" by (rule n)
    show "currentSectionIndex st' =
       (if (\<forall>field \<in> set ?cur.
              map_of (resolver (buildSchema e (sections f)) (formValues st))
                (fieldId field) = None) \<and>
           currentSectionIndex st < int (length (sections f)) - 1
        then currentSectionIndex st + 1 else currentSectionIndex st)" by (rule i)
  next
    fix st2 :: engine
    assume h: "currentSectionIndex st2 = currentSectionIndex st \<and>
        (\<forall>field \<in> set ?cur.
           getValue (formValues st2) (fieldId field) =
           getValue (formValues st) (fieldId field))"
    from h have h1: "currentSectionIndex st2 = currentSectionIndex st" by (rule conjunct1)
    from h have h2: "\<forall>field \<in> set ?cur.
           getValue (formValues st2) (fieldId field) =
           getValue (formValues st) (fieldId field)" by (rule conjunct2)
    from other[OF h1 h2]
    show "\<exists>st2' fx2. handleNext e f st2 = Inr (st2', fx2) \<and>
           currentSectionIndex st2' = currentSectionIndex st'" .
  qed
qed

text \<open>
  Claim C9. The section index lies between 0 and the number of sections, exclusive: in
  the initial state of a descriptor that has a section, and after navigate-prev,
  navigate-next, submit and a field update from a state in which it does. At index 0
  navigate-prev returns the state unchanged; at the last index navigate-next leaves
  the index where it is, whether or not the section is valid.
\<close>

theorem section_index_stays_in_range:
  "(sections f \<noteq> [] \<longrightarrow> indexInRange f (initialState f)) \<and>
   (indexInRange f st \<longrightarrow> indexInRange f (handlePrev st)) \<and>
   (indexInRange f st \<longrightarrow>
      (\<exists>st' fx. handleNext e f st = Inr (st', fx) \<and> indexInRange f st')) \<and>
   (indexInRange f st \<longrightarrow> indexInRange f (fst (onSubmit e f st))) \<and>
   (indexInRange f st \<longrightarrow> indexInRange f (updateField e f name v st)) \<and>
   (currentSectionIndex st = 0 \<longrightarrow> handlePrev st = st) \<and>
   (sections f \<noteq> [] \<and> currentSectionIndex st = int (length (sections f)) - 1 \<longrightarrow>
      (\<exists>st' fx. handleNext e f st = Inr (st', fx) \<and>
         currentSectionIndex st' = currentSectionIndex st))"
proof (intro conjI impI)
  assume "sections f \<noteq> []"
  then show "indexInRange f (initialState f)"
    by (simp add: indexInRange_def initialState_def)
next
  assume "indexInRange f st"
  then show "indexInRange f (handlePrev st)"
    by (simp add: indexInRange_def handlePrev_def)
next
  assume r: "indexInRange f st"
  from handleNext_index[OF r, of e] obtain st' fx where
    n: "handleNext e f st = Inr (st', fx)" and
    i: "currentSectionIndex st' =
       (if (\<forall>field \<in> set (sectionFields (sections f ! nat (currentSectionIndex st))).
              map_of (resolver (buildSchema e (sections f)) (formValues st))
                (fieldId field) = None) \<and>
           currentSectionIndex st < int (length (sections f)) - 1
        then currentSectionIndex st + 1 else currentSectionIndex st)"
    by blast
  from r have "indexInRange f st'"
    unfolding indexInRange_def i by (simp split: if_splits)
  with n show "\<exists>st' fx. handleNext e f st = Inr (st', fx) \<and> indexInRange f st'" by blast
next
  assume r: "indexInRange f st"
  show "indexInRange f (fst (onSubmit e f st))"
  proof (cases "resolver (buildSchema e (sections f)) (formValues st) = []")
    case True
    from r have "sections f \<noteq> []" by (auto simp: indexInRange_def)
    with True show ?thesis
      by (simp add: onSubmit_valid initialState_def indexInRange_def)
  next
    case False
    from firstErrorSectionFrom_range[of 0 "resolver (buildSchema e (sections f)) (formValues st)"
        "sections f"] r
    show ?thesis
      unfolding onSubmit_invalid[OF False]
      by (auto simp: Let_def indexInRange_def)
  qed
next
  assume "indexInRange f st"
  then show "indexInRange f (updateField e f name v st)"
    by (simp add: indexInRange_def updateField_def)
next
  assume "currentSectionIndex st = 0"
  then show "handlePrev st = st" by (simp add: handlePrev_def)
next
  assume a: "sections f \<noteq> [] \<and> currentSectionIndex st = int (length (sections f)) - 1"
  then have r: "indexInRange f st" by (simp add: indexInRange_def)
  from handleNext_index[OF r, of e] obtain st' fx where
    n: "handleNext e f st = Inr (st', fx)" and
    i: "currentSectionIndex st' =
       (if (\<forall>field \<in> set (sectionFields (sections f ! nat (currentSectionIndex st))).
              map_of (resolver (buildSchema e (sections f)) (formValues st))
                (fieldId field) = None) \<and>
           currentSectionIndex st < int (length (sections f)) - 1
        then currentSectionIndex st + 1 else currentSectionIndex st)"
    by blast
  from a have "currentSectionIndex st' = currentSectionIndex st"
    unfolding i by simp
  with n show "\<exists>st' fx. handleNext e f st = Inr (st', fx) \<and>
      currentSectionIndex st' = currentSectionIndex st"
    by blast
qed

theorem next_looks_at_current_section_only_witness:
  "indexInRange sampleForm firstState \<and>
   map_of (resolver (buildSchema utcEnv (sections sampleForm)) (formValues firstState))
     ''city'' \<noteq> None \<and>
   (\<exists>st' fx. handleNext utcEnv sampleForm firstState = Inr (st', fx) \<and>
      currentSectionIndex st' = 1)"
proof -
  have h: "indexInRange sampleForm firstState"
    by (simp add: indexInRange_def firstState_def sampleForm_def)
  have errs: "resolver (buildSchema utcEnv (sections sampleForm)) (formValues firstState) =
      [(''city'', ''City is required''), (''agree'', ''Agree is required'')]"
    by (simp add: sample_defs firstState_def schema_defs resolver_defs)
  from next_looks_at_current_section_only[OF h, of utcEnv]
  obtain st' fx where n: "handleNext utcEnv sampleForm firstState = Inr (st', fx)"
    and i: "currentSectionIndex st' =
       (if (\<forall>field \<in> set (sectionFields
                (sections sampleForm ! nat (currentSectionIndex firstState))).
              map_of (resolver (buildSchema utcEnv (sections sampleForm))
                (formValues firstState)) (fieldId field) = None) \<and>
           currentSectionIndex firstState < int (length (sections sampleForm)) - 1
        then currentSectionIndex firstState + 1 else currentSectionIndex firstState)"
    by blast
  have "currentSectionIndex st' = 1"
    unfolding i errs
    by (simp add: firstState_def sampleForm_def sampleSection_def sampleText_def)
  with n h show ?thesis unfolding errs by auto
qed

theorem section_index_stays_in_range_witness:
  "sections singleForm \<noteq> [] \<and>
   indexInRange singleForm (initialState singleForm) \<and>
   currentSectionIndex (initialState singleForm) = 0 \<and>
   currentSectionIndex (initialState singleForm) = int (length (sections singleForm)) - 1 \<and>
   handlePrev (initialState singleForm) = initialState singleForm \<and>
   indexInRange singleForm (handlePrev (initialState singleForm)) \<and>
   indexInRange singleForm (fst (onSubmit utcEnv singleForm (initialState singleForm))) \<and>
   indexInRange singleForm
     (updateField utcEnv singleForm ''name'' (Str ''Ann'') (initialState singleForm)) \<and>
   (\<exists>st' fx. handleNext utcEnv singleForm (initialState singleForm) = Inr (st', fx) \<and>
      indexInRange singleForm st') \<and>
   (\<exists>st' fx. handleNext utcEnv singleForm (initialState singleForm) = Inr (st', fx) \<and>
      currentSectionIndex st' = currentSectionIndex (initialState singleForm))"
proof -
  have a: "sections singleForm \<noteq> []" by (simp add: singleForm_def)
  have b: "currentSectionIndex (initialState singleForm) = 0"
    by (simp add: initialState_def)
  have c: "currentSectionIndex (initialState singleForm) =
      int (length (sections singleForm)) - 1"
    by (simp add: initialState_def singleForm_def)
  have d: "indexInRange singleForm (initialState singleForm)"
    by (simp add: indexInRange_def initialState_def singleForm_def)
  from section_index_stays_in_range[of singleForm "initialState singleForm" utcEnv
      "''name''" "Str ''Ann''"] a b c d
  show ?thesis by blast
qed

section \<open>Filling the form, walking through it and submitting\<close>

lemma updateField_index [simp]:
  "currentSectionIndex (updateField e f name v st) = currentSectionIndex st"
  by (simp add: updateField_def)

lemma updateField_values [simp]:
  "formValues (updateField e f name v st) = AList.update name v (formValues st)"
  by (simp add: updateField_def)

lemma fillAll_index: "currentSectionIndex (fillAll e f entries st) = currentSectionIndex st"
  unfolding fillAll_def by (induction entries arbitrary: st) (simp_all split: prod.splits)

lemma fillAll_values:
  "map_of (formValues (fillAll e f entries st)) = map_of (formValues st) ++ map_of (rev entries)"
  unfolding fillAll_def
proof (induction entries arbitrary: st)
  case Nil
  show ?case by simp
next
  case (Cons p entries)
  obtain k v where p: "p = (k, v)" by (cases p)
  show ?case
    unfolding p by (simp add: Cons.IH update_conv' fun_eq_iff map_add_def
        split: option.splits)
qed

lemma handleNext_valid:
  assumes "indexInRange f st"
    and "resolver (buildSchema e (sections f)) (formValues st) = []"
    and "currentSectionIndex st < int (length (sections f)) - 1"
  shows "\<exists>st'. handleNext e f st = Inr (st', []) \<and>
     currentSectionIndex st' = currentSectionIndex st + 1 \<and> formValues st' = formValues st"
  unfolding handleNext_in_range[OF assms(1)]
  using assms(2,3) by (simp add: Let_def triggerFields_valid)

lemma repeatNext_valid:
  assumes "resolver (buildSchema e (sections f)) (formValues st) = []"
    and "indexInRange f st"
    and "currentSectionIndex st + int k \<le> int (length (sections f)) - 1"
  shows "\<exists>st'. repeatNext e f k st = Inr (st', []) \<and>
     currentSectionIndex st' = currentSectionIndex st + int k \<and> formValues st' = formValues st"
  using assms
proof (induction k arbitrary: st)
  case 0
  show ?case by simp
next
  case (Suc k)
  from Suc.prems(3) have lt: "currentSectionIndex st < int (length (sections f)) - 1"
    by simp
  from handleNext_valid[OF Suc.prems(2) Suc.prems(1) lt]
  obtain st1 where h: "handleNext e f st = Inr (st1, [])"
    and i1: "currentSectionIndex st1 = currentSectionIndex st + 1"
    and v1: "formValues st1 = formValues st"
    by blast
  from Suc.prems(1) v1
  have r1: "resolver (buildSchema e (sections f)) (formValues st1) = []" by simp
  from Suc.prems(2,3) i1 have in1: "indexInRange f st1" by (simp add: indexInRange_def)
  from Suc.prems(3) i1
  have le1: "currentSectionIndex st1 + int k \<le> int (length (sections f)) - 1" by simp
  from Suc.IH[OF r1 in1 le1] obtain st2 where r: "repeatNext e f k st1 = Inr (st2, [])"
    and i2: "currentSectionIndex st2 = currentSectionIndex st1 + int k"
    and v2: "formValues st2 = formValues st1"
    by blast
  from h r have "repeatNext e f (Suc k) st = Inr (st2, [])" by simp
  moreover from i1 i2 have "currentSectionIndex st2 = currentSectionIndex st + int (Suc k)"
    by simp
  moreover from v1 v2 have "formValues st2 = formValues st" by simp
  ultimately show ?case by blast
qed

text \<open>
  Claim C8. Start the engine of a descriptor with at least one section in its initial
  state and enter values field by field; let the answers be such that the validator finds
  no error in any field. Then pressing Next once per section boundary succeeds every
  time, without a notification, and ends on the last section with the answers untouched;
  the submit that follows hands the sink exactly these answers, which are the defaults
  overwritten by the values entered, and leaves the engine in its initial state: section
  index 0, the synthesized defaults, no errors.
\<close>

theorem fill_walk_submit_round_trip:
  assumes "sections f \<noteq> []"
    and "st1 = fillAll e f entries (initialState f)"
    and "resolver (buildSchema e (sections f)) (formValues st1) = []"
  shows "\<exists>st2. repeatNext e f (length (sections f) - 1) st1 = Inr (st2, []) \<and>
           currentSectionIndex st2 = int (length (sections f)) - 1 \<and>
           formValues st2 = formValues st1 \<and>
           onSubmit e f st2 =
             (initialState f,
              [CollectedFormData (formValues st1),
               Toast ''Success!'' ''Form submitted successfully!'']) \<and>
           map_of (formValues st1) =
             map_of (generateDefaultValues f) ++ map_of (rev entries)"
proof -
  have i0: "currentSectionIndex st1 = 0"
    unfolding assms(2) fillAll_index by (simp add: initialState_def)
  with assms(1) have inr: "indexInRange f st1" by (simp add: indexInRange_def)
  from assms(1) i0
  have le: "currentSectionIndex st1 + int (length (sections f) - 1) \<le>
      int (length (sections f)) - 1"
    by (cases "sections f") simp_all
  from repeatNext_valid[OF assms(3) inr le] obtain st2 where
    r: "repeatNext e f (length (sections f) - 1) st1 = Inr (st2, [])" and
    i2: "currentSectionIndex st2 = currentSectionIndex st1 + int (length (sections f) - 1)" and
    v2: "formValues st2 = formValues st1"
    by blast
  from i2 i0 assms(1) have last: "currentSectionIndex st2 = int (length (sections f)) - 1"
    by (cases "sections f") simp_all
  from assms(3) v2 have "resolver (buildSchema e (sections f)) (formValues st2) = []"
    by simp
  from onSubmit_valid[OF this] v2
  have s: "onSubmit e f st2 =
      (initialState f,
       [CollectedFormData (formValues st1), Toast ''Success!'' ''Form submitted successfully!''])"
    by simp
  have m: "map_of (formValues st1) = map_of (generateDefaultValues f) ++ map_of (rev entries)"
    unfolding assms(2) fillAll_values by (simp add: initialState_def)
  from r last v2 s m show ?thesis by blast
qed

theorem fill_walk_submit_round_trip_witness:
  "sections sampleForm \<noteq> [] \<and>
   resolver (buildSchema utcEnv (sections sampleForm))
     (formValues (fillAll utcEnv sampleForm filledEntries (initialState sampleForm))) = [] \<and>
   formValues (fillAll utcEnv sampleForm filledEntries (initialState sampleForm)) =
     filledEntries \<and>
   (\<exists>st2. repeatNext utcEnv sampleForm 2
            (fillAll utcEnv sampleForm filledEntries (initialState sampleForm)) =
              Inr (st2, []) \<and>
          currentSectionIndex st2 = 2 \<and>
          onSubmit utcEnv sampleForm st2 =
            (initialState sampleForm,
             [CollectedFormData filledEntries,
              Toast ''Success!'' ''Form submitted successfully!'']))"
proof -
  have a: "sections sampleForm \<noteq> []" by (simp add: sampleForm_def)
  have v: "formValues (fillAll utcEnv sampleForm filledEntries (initialState sampleForm)) =
      filledEntries"
    by (simp add: fillAll_def filledEntries_def initialState_def generateDefaultValues_def
        defaultOf_def sampleForm_def sampleSection_def sampleText_def sampleCity_def
        sampleAgree_def)
  have b: "resolver (buildSchema utcEnv (sections sampleForm))
     (formValues (fillAll utcEnv sampleForm filledEntries (initialState sampleForm))) = []"
    unfolding v by (simp add: sample_defs schema_defs resolver_defs)
  have n: "length (sections sampleForm) - 1 = 2" by (simp add: sampleForm_def)
  have n2: "int (length (sections sampleForm)) - 1 = 2" by (simp add: sampleForm_def)
  from fill_walk_submit_round_trip[OF a refl b]
  have "\<exists>st2. repeatNext utcEnv sampleForm 2
            (fillAll utcEnv sampleForm filledEntries (initialState sampleForm)) =
              Inr (st2, []) \<and>
          currentSectionIndex st2 = 2 \<and>
          onSubmit utcEnv sampleForm st2 =
            (initialState sampleForm,
             [CollectedFormData filledEntries,
              Toast ''Success!'' ''Form submitted successfully!''])"
    unfolding n n2 v by blast
  with a b v show ?thesis by blast
qed

section \<open>The issues of a compiled rule on a string\<close>

lemma withLengths_ZodString:
  "withLengths f (ZodString cs) = ZodString (cs @ lengthChecks f)"
  by (simp add: withLengths_def zmin_def zmax_def lengthChecks_def Let_def
      split: option.splits)

lemma lengthChecks_issues:
  "concat (map (checkIssue s) (lengthChecks f)) = lengthIssues f s"
  by (simp add: lengthChecks_def lengthIssues_def split: option.splits)

lemma issues_ZodString: "issues (ZodString cs) (Str s) = concat (map (checkIssue s) cs)"
  by (simp add: issues_def Let_def)

lemma issues_ZodOptional_Str: "issues (ZodOptional sch) (Str s) = issues sch (Str s)"
  by (simp add: issues_def)

lemma fieldSchema_of_string:
  assumes "typeSchema e f = ZodString cs" and "ftype f \<noteq> FCheckbox"
  shows "fieldSchema e f =
     (if required f then ZodString (cs @ [Min 1 (requiredMessage f)])
      else ZodOptional (ZodString cs))"
  using assms(2) unfolding fieldSchema_def assms(1)
  by (simp add: isZodString_def typeNameIncludesOptional_def zmin_def)

lemma issues_of_string:
  assumes "typeSchema e f = ZodString cs" and "ftype f \<noteq> FCheckbox"
  shows "issues (fieldSchema e f) (Str s) =
     concat (map (checkIssue s) cs) @ requiredIssue f s"
  unfolding fieldSchema_of_string[OF assms]
  by (simp add: issues_ZodString issues_ZodOptional_Str requiredIssue_def)

lemma typeSchema_text:
  "ftype f = FText \<or> ftype f = FTextarea \<Longrightarrow> typeSchema e f = ZodString (lengthChecks f)"
  unfolding typeSchema_def by (auto simp: withLengths_ZodString)

lemma typeSchema_email:
  "ftype f = FEmail \<Longrightarrow>
   typeSchema e f = ZodString [EmailCheck (messageOr f ''Invalid email address'')]"
  unfolding typeSchema_def by simp

lemma typeSchema_tel:
  "ftype f = FTel \<Longrightarrow>
   typeSchema e f =
     ZodString (Regex telRegex (messageOr f ''Invalid phone number format'') # lengthChecks f)"
  unfolding typeSchema_def by (simp add: withLengths_ZodString)

lemma typeSchema_choice:
  "ftype f = FDropdown \<or> ftype f = FRadio \<Longrightarrow> typeSchema e f = ZodString []"
  unfolding typeSchema_def by auto

lemma issues_text:
  assumes "ftype f = FText \<or> ftype f = FTextarea"
  shows "issues (fieldSchema e f) (Str s) = lengthIssues f s @ requiredIssue f s"
proof -
  from assms have "ftype f \<noteq> FCheckbox" by auto
  from issues_of_string[OF typeSchema_text[OF assms] this]
  show ?thesis by (simp add: lengthChecks_issues)
qed

lemma issues_email:
  assumes "ftype f = FEmail"
  shows "issues (fieldSchema e f) (Str s) =
     (if \<not> emailRegex s then [messageOr f ''Invalid email address''] else []) @
     requiredIssue f s"
proof -
  from assms have "ftype f \<noteq> FCheckbox" by auto
  from issues_of_string[OF typeSchema_email[OF assms] this]
  show ?thesis by simp
qed

lemma issues_tel:
  assumes "ftype f = FTel"
  shows "issues (fieldSchema e f) (Str s) =
     (if \<not> telRegex s then [messageOr f ''Invalid phone number format''] else []) @
     lengthIssues f s @ requiredIssue f s"
proof -
  from assms have "ftype f \<noteq> FCheckbox" by auto
  from issues_of_string[OF typeSchema_tel[OF assms] this]
  show ?thesis by (simp add: lengthChecks_issues)
qed

lemma issues_choice:
  assumes "ftype f = FDropdown \<or> ftype f = FRadio"
  shows "issues (fieldSchema e f) (Str s) = requiredIssue f s"
proof -
  from assms have "ftype f \<noteq> FCheckbox" by auto
  from issues_of_string[OF typeSchema_choice[OF assms] this]
  show ?thesis by simp
qed

lemma typeSchema_date:
  "ftype f = FDate \<Longrightarrow>
   typeSchema e f =
     ZodEffects
       (ZodString [Regex dateRegex (messageOr f ''Invalid date format (YYYY-MM-DD)'')])
       (notFuture e) (messageOr f (label f @ '' cannot be a future date''))"
  unfolding typeSchema_def by simp

lemma fieldSchema_date:
  assumes "ftype f = FDate"
  shows "fieldSchema e f =
     (if required f
      then ZodEffects (typeSchema e f)
             (\<lambda>val. val \<noteq> Null \<and> val \<noteq> Undefined \<and> val \<noteq> Str []) (requiredMessage f)
      else ZodOptional (typeSchema e f))"
  unfolding fieldSchema_def Let_def using assms
  by (simp add: typeSchema_date isZodString_def typeNameIncludesOptional_def)

lemma parse_date_inner:
  "parse (ZodEffects (ZodString [Regex dateRegex m1]) (notFuture e) m2) (Str s) =
     (if dateRegex s \<and> notFuture e (Str s) then Valid else Dirty, Str s,
      (if \<not> dateRegex s then [m1] else []) @ (if \<not> notFuture e (Str s) then [m2] else []))"
  by (simp add: Let_def)

lemma parse_ZodEffects_continue:
  assumes "parse inner v = (st, w, msgs)" and "st \<noteq> Aborted"
  shows "parse (ZodEffects inner p msg) v =
     (if p w then (st, w, msgs) else (Dirty, w, msgs @ [msg]))"
  using assms by (cases st) simp_all

lemma issues_date:
  assumes "ftype f = FDate"
  shows "issues (fieldSchema e f) (Str s) =
     (if \<not> dateRegex s then [messageOr f ''Invalid date format (YYYY-MM-DD)''] else []) @
     (if \<not> notFuture e (Str s)
      then [messageOr f (label f @ '' cannot be a future date'')] else []) @
     requiredIssue f s"
proof -
  let ?fmt = "messageOr f ''Invalid date format (YYYY-MM-DD)''"
  let ?fut = "messageOr f (label f @ '' cannot be a future date'')"
  let ?st = "if dateRegex s \<and> notFuture e (Str s) then Valid else Dirty"
  let ?msgs = "(if \<not> dateRegex s then [?fmt] else []) @
      (if \<not> notFuture e (Str s) then [?fut] else [])"
  have inner: "parse (typeSchema e f) (Str s) = (?st, Str s, ?msgs)"
    unfolding typeSchema_date[OF assms] by (rule parse_date_inner)
  have na: "?st \<noteq> Aborted" by simp
  show ?thesis
  proof (cases "required f")
    case True
    have "parse (fieldSchema e f) (Str s) =
        (if Str s \<noteq> Null \<and> Str s \<noteq> Undefined \<and> Str s \<noteq> Str [] then (?st, Str s, ?msgs)
         else (Dirty, Str s, ?msgs @ [requiredMessage f]))"
      unfolding fieldSchema_date[OF assms] using True
      by (simp only: if_True parse_ZodEffects_continue[OF inner na])
    then show ?thesis using True
      by (simp add: issues_def requiredIssue_def)
  next
    case False
    have "parse (fieldSchema e f) (Str s) = (?st, Str s, ?msgs)"
      unfolding fieldSchema_date[OF assms] using False inner
      by (simp del: parse.simps add: parse.simps(5))
    then show ?thesis using False
      by (simp add: issues_def requiredIssue_def)
  qed
qed

lemma issues_checkbox:
  assumes "ftype f = FCheckbox"
  shows "issues (fieldSchema e f) (Bool b) =
     (if required f \<and> \<not> b then [requiredMessage f] else [])"
  using assms
  by (simp add: issues_def fieldSchema_def typeSchema_def Let_def)


section \<open>Date fields\<close>

lemma dateRegex_Nil: "\<not> dateRegex []"
  by (simp add: dateRegex_def)


















section \<open>Messages\<close>

lemma messageOr_set:
  "validation f = Some m \<Longrightarrow> m \<noteq> [] \<Longrightarrow> messageOr f d = m"
  by (simp add: messageOr_def)

lemma messageOr_unset: "validation f = None \<Longrightarrow> messageOr f d = d"
  by (simp add: messageOr_def)

lemma lengthIssues_members:
  "msg \<in> set (lengthIssues f s) \<Longrightarrow>
   (\<exists>n. minLength f = Some n \<and> msg = minMessage f n) \<or>
   (\<exists>n. maxLength f = Some n \<and> msg = maxMessage f n)"
  by (cases "minLength f"; cases "maxLength f") (auto simp: lengthIssues_def split: if_splits)

lemma lengthIssues_none:
  "minLength f = None \<Longrightarrow> maxLength f = None \<Longrightarrow> lengthIssues f s = []"
  by (simp add: lengthIssues_def)

lemma lengthIssues_min:
  "minLength f = Some n \<Longrightarrow> length s < n \<Longrightarrow> minMessage f n \<in> set (lengthIssues f s)"
  by (simp add: lengthIssues_def)

lemma lengthIssues_max:
  "maxLength f = Some n \<Longrightarrow> n < length s \<Longrightarrow> maxMessage f n \<in> set (lengthIssues f s)"
  by (simp add: lengthIssues_def)



lemma firstIssue_Nil_iff: "firstIssue sch v = None \<longleftrightarrow> accepts sch v"
  by (simp add: firstIssue_def accepts_def split: list.splits)

lemma firstIssue_member:
  "firstIssue sch v = Some msg \<Longrightarrow> msg \<in> set (issues sch v)"
  by (auto simp: firstIssue_def split: list.splits)

lemma showNat_3: "showNat 3 = ''3''"
  by (simp add: showNat.simps)

text \<open>The issues of every field on a value of its own type.\<close>

lemma issues_typed_members:
  assumes "validation f = Some m" and "m \<noteq> []"
    and "if ftype f = FCheckbox then (\<exists>b. v = Bool b) else (\<exists>s. v = Str s)"
    and "msg \<in> set (issues (fieldSchema e f) v)"
  shows "msg = m \<or>
     (ftype f \<in> {FText, FTextarea, FTel} \<and>
      ((\<exists>n. minLength f = Some n \<and> msg = minMessage f n) \<or>
       (\<exists>n. maxLength f = Some n \<and> msg = maxMessage f n)))"
proof -
  note mo = messageOr_set[OF assms(1,2)]
  have rq: "requiredMessage f = m" by (simp add: requiredMessage_def mo)
  show ?thesis
  proof (cases "ftype f")
    case FText
    with assms(3) obtain s where v: "v = Str s" by auto
    from assms(4) lengthIssues_members[of msg f s] FText show ?thesis
      unfolding v by (auto simp: issues_text requiredIssue_def rq split: if_splits)
  next
    case FTextarea
    with assms(3) obtain s where v: "v = Str s" by auto
    from assms(4) lengthIssues_members[of msg f s] FTextarea show ?thesis
      unfolding v by (auto simp: issues_text requiredIssue_def rq split: if_splits)
  next
    case FTel
    with assms(3) obtain s where v: "v = Str s" by auto
    from assms(4) lengthIssues_members[of msg f s] FTel show ?thesis
      unfolding v by (auto simp: issues_tel requiredIssue_def rq mo split: if_splits)
  next
    case FEmail
    with assms(3) obtain s where v: "v = Str s" by auto
    from assms(4) FEmail show ?thesis
      unfolding v by (auto simp: issues_email requiredIssue_def rq mo split: if_splits)
  next
    case FDate
    with assms(3) obtain s where v: "v = Str s" by auto
    from assms(4) FDate show ?thesis
      unfolding v by (auto simp: issues_date requiredIssue_def rq mo split: if_splits)
  next
    case FDropdown
    with assms(3) obtain s where v: "v = Str s" by auto
    from assms(4) FDropdown show ?thesis
      unfolding v by (auto simp: issues_choice requiredIssue_def rq split: if_splits)
  next
    case FRadio
    with assms(3) obtain s where v: "v = Str s" by auto
    from assms(4) FRadio show ?thesis
      unfolding v by (auto simp: issues_choice requiredIssue_def rq split: if_splits)
  next
    case FCheckbox
    with assms(3) obtain b where v: "v = Bool b" by auto
    from assms(4) FCheckbox show ?thesis
      unfolding v by (auto simp: issues_checkbox rq split: if_splits)
  qed
qed

lemma issues_length_member:
  assumes "ftype f \<in> {FText, FTextarea, FTel}" and "msg \<in> set (lengthIssues f s)"
  shows "msg \<in> set (issues (fieldSchema e f) (Str s))"
  using assms by (auto simp: issues_text issues_tel)

section \<open>Precedence of the field's own message\<close>

lemma messageOr_empty:
  "validation f = Some [] \<Longrightarrow> messageOr f d = messageOr (f\<lparr>validation := None\<rparr>) d"
  by (simp add: messageOr_def)

lemma fieldSchema_empty_message:
  assumes "validation f = Some []"
  shows "fieldSchema e f = fieldSchema e (f\<lparr>validation := None\<rparr>)"
proof -
  have t: "typeSchema e f = typeSchema e (f\<lparr>validation := None\<rparr>)"
    by (cases "ftype f")
      (simp_all add: typeSchema_def withLengths_def minMessage_def maxMessage_def
        requiredMessage_def messageOr_def assms Let_def split: option.splits)
  show ?thesis
    unfolding fieldSchema_def t
    by (simp add: requiredMessage_def messageOr_def assms Let_def)
qed

lemma required_issue_member:
  assumes "required f" and "ftype f \<noteq> FCheckbox"
  shows "requiredMessage f \<in> set (issues (fieldSchema e f) (Str []))"
  using assms
  by (cases "ftype f")
    (simp_all add: issues_text issues_tel issues_email issues_date issues_choice
      requiredIssue_def)

text \<open>
  Claim C4, as the code has it. Let a field declare a validation message, and let the
  value be of the field's own type (a boolean for a checkbox, a string otherwise).
  When the message is not empty, every issue that the compiled rule raises carries the
  field's message, except the issues of the minLength and maxLength rules of text,
  textarea and telephone fields: the rules required, e-mail format, phone format, date
  format, future date and required checkbox report the field's message; for a field
  without length rules the error reported, if any, is the field's message; and the
  required rule raises the field's message on the empty string also when the field has
  length rules. A length rule that fails raises its built-in message, whatever the
  field's message is. When the message is the empty string, the compiled rule is that
  of the same field without a message, so every rule reports its built-in default.
\<close>

theorem validation_message_wins_except_lengths:
  assumes "validation f = Some m"
    and "if ftype f = FCheckbox then (\<exists>b. v = Bool b) else (\<exists>s. v = Str s)"
  shows "(m \<noteq> [] \<longrightarrow>
            (\<forall>msg \<in> set (issues (fieldSchema e f) v).
               msg = m \<or>
               (ftype f \<in> {FText, FTextarea, FTel} \<and>
                ((\<exists>n. minLength f = Some n \<and> msg = minMessage f n) \<or>
                 (\<exists>n. maxLength f = Some n \<and> msg = maxMessage f n)))) \<and>
            ((ftype f \<in> {FText, FTextarea, FTel} \<longrightarrow>
                minLength f = None \<and> maxLength f = None) \<longrightarrow>
               firstIssue (fieldSchema e f) v = None \<or>
               firstIssue (fieldSchema e f) v = Some m) \<and>
            (required f \<and> v = Str [] \<longrightarrow> m \<in> set (issues (fieldSchema e f) v))) \<and>
         (\<forall>s n. v = Str s \<and> ftype f \<in> {FText, FTextarea, FTel} \<and>
              minLength f = Some n \<and> length s < n \<longrightarrow>
            minMessage f n \<in> set (issues (fieldSchema e f) v)) \<and>
         (\<forall>s n. v = Str s \<and> ftype f \<in> {FText, FTextarea, FTel} \<and>
              maxLength f = Some n \<and> n < length s \<longrightarrow>
            maxMessage f n \<in> set (issues (fieldSchema e f) v)) \<and>
         (m = [] \<longrightarrow> fieldSchema e f = fieldSchema e (f\<lparr>validation := None\<rparr>))"
proof (intro conjI ballI allI impI)
  fix msg
  assume ne: "m \<noteq> []" and "msg \<in> set (issues (fieldSchema e f) v)"
  with assms show "msg = m \<or>
      (ftype f \<in> {FText, FTextarea, FTel} \<and>
       ((\<exists>n. minLength f = Some n \<and> msg = minMessage f n) \<or>
        (\<exists>n. maxLength f = Some n \<and> msg = maxMessage f n)))"
    using issues_typed_members[of f m v msg e] by blast
next
  assume ne: "m \<noteq> []"
  assume nolen: "ftype f \<in> {FText, FTextarea, FTel} \<longrightarrow>
      minLength f = None \<and> maxLength f = None"
  show "firstIssue (fieldSchema e f) v = None \<or> firstIssue (fieldSchema e f) v = Some m"
  proof (cases "firstIssue (fieldSchema e f) v")
    case None
    then show ?thesis by simp
  next
    case (Some msg)
    then have "msg \<in> set (issues (fieldSchema e f) v)" by (rule firstIssue_member)
    from issues_typed_members[OF assms(1) ne assms(2) this] nolen have "msg = m" by auto
    with Some show ?thesis by simp
  qed
next
  assume ne: "m \<noteq> []"
  assume h: "required f \<and> v = Str []"
  with assms(2) have nc: "ftype f \<noteq> FCheckbox" by (auto split: if_splits)
  have "requiredMessage f = m"
    by (simp add: requiredMessage_def messageOr_set[OF assms(1) ne])
  with required_issue_member[OF conjunct1[OF h] nc, of e] h
  show "m \<in> set (issues (fieldSchema e f) v)" by simp
next
  fix s n
  assume h: "v = Str s \<and> ftype f \<in> {FText, FTextarea, FTel} \<and>
      minLength f = Some n \<and> length s < n"
  then have "minMessage f n \<in> set (lengthIssues f s)" by (simp add: lengthIssues_min)
  with h show "minMessage f n \<in> set (issues (fieldSchema e f) v)"
    using issues_length_member[of f "minMessage f n" s e] by blast
next
  fix s n
  assume h: "v = Str s \<and> ftype f \<in> {FText, FTextarea, FTel} \<and>
      maxLength f = Some n \<and> n < length s"
  then have "maxMessage f n \<in> set (lengthIssues f s)" by (simp add: lengthIssues_max)
  with h show "maxMessage f n \<in> set (issues (fieldSchema e f) v)"
    using issues_length_member[of f "maxMessage f n" s e] by blast
next
  assume "m = []"
  with assms(1) have "validation f = Some []" by simp
  then show "fieldSchema e f = fieldSchema e (f\<lparr>validation := None\<rparr>)"
    by (rule fieldSchema_empty_message)
qed

lemma shortName_facts:
  "validation shortName = Some ''Bad''" "ftype shortName = FText"
  "minLength shortName = Some 3" "maxLength shortName = None" "required shortName"
  "label shortName = ''Name''"
  by (simp_all add: shortName_def sampleText_def)

lemma shortName_issues:
  "issues (fieldSchema utcEnv shortName) (Str ''ab'') = [''Name must be at least 3 characters'']"
  by (simp add: issues_text shortName_facts lengthIssues_def requiredIssue_def minMessage_def
      showNat_3)

lemma cappedName_facts:
  "validation cappedName = Some ''Bad''" "ftype cappedName = FText"
  "minLength cappedName = None" "maxLength cappedName = Some 2" "required cappedName"
  "label cappedName = ''Name''"
  by (simp_all add: cappedName_def sampleText_def)

lemma messageEmail_facts:
  "validation messageEmail = Some ''Bad mail''" "ftype messageEmail = FEmail"
  "required messageEmail"
  by (simp_all add: messageEmail_def sampleEmail_def sampleText_def)

lemma emptyMessageEmail_facts:
  "validation emptyMessageEmail = Some []" "ftype emptyMessageEmail = FEmail"
  "emptyMessageEmail\<lparr>validation := None\<rparr> = sampleEmail"
  by (simp_all add: emptyMessageEmail_def sampleEmail_def sampleText_def)

lemma sampleEmail_facts:
  "required sampleEmail" "ftype sampleEmail = FEmail" "validation sampleEmail = None"
  "label sampleEmail = ''Email''"
  by (simp_all add: sampleEmail_def sampleText_def)

lemma not_email_x: "\<not> emailRegex ''x''"
  by (simp add: emailRegex_def)

theorem validation_message_wins_except_lengths_witness:
  "validation messageEmail = Some ''Bad mail'' \<and> ''Bad mail'' \<noteq> [] \<and>
   (if ftype messageEmail = FCheckbox then (\<exists>b. Str ''x'' = Bool b)
    else (\<exists>s. Str ''x'' = Str s)) \<and>
   ftype messageEmail = FEmail \<and>
   firstIssue (fieldSchema utcEnv messageEmail) (Str ''x'') = Some ''Bad mail'' \<and>
   validation shortName = Some ''Bad'' \<and> required shortName \<and>
   ''Bad'' \<in> set (issues (fieldSchema utcEnv shortName) (Str [])) \<and>
   ftype shortName \<in> {FText, FTextarea, FTel} \<and> minLength shortName = Some 3 \<and>
   length ''ab'' < (3::nat) \<and>
   minMessage shortName 3 \<in> set (issues (fieldSchema utcEnv shortName) (Str ''ab'')) \<and>
   validation cappedName = Some ''Bad'' \<and>
   ftype cappedName \<in> {FText, FTextarea, FTel} \<and> maxLength cappedName = Some 2 \<and>
   (2::nat) < length ''abc'' \<and>
   maxMessage cappedName 2 \<in> set (issues (fieldSchema utcEnv cappedName) (Str ''abc'')) \<and>
   validation emptyMessageEmail = Some [] \<and>
   fieldSchema utcEnv emptyMessageEmail = fieldSchema utcEnv sampleEmail"
proof -
  have me: "if ftype messageEmail = FCheckbox then (\<exists>b. Str ''x'' = Bool b)
      else (\<exists>s. Str ''x'' = Str s)"
    by (simp add: messageEmail_facts)
  have nolen: "ftype messageEmail \<in> {FText, FTextarea, FTel} \<longrightarrow>
      minLength messageEmail = None \<and> maxLength messageEmail = None"
    by (simp add: messageEmail_facts)
  have "\<not> accepts (fieldSchema utcEnv messageEmail) (Str ''x'')"
    by (simp add: accepts_def issues_email messageEmail_facts not_email_x)
  then have some: "firstIssue (fieldSchema utcEnv messageEmail) (Str ''x'') \<noteq> None"
    by (simp add: firstIssue_Nil_iff)
  from validation_message_wins_except_lengths[OF messageEmail_facts(1) me, of utcEnv] nolen
  have "firstIssue (fieldSchema utcEnv messageEmail) (Str ''x'') = None \<or>
      firstIssue (fieldSchema utcEnv messageEmail) (Str ''x'') = Some ''Bad mail''"
    by simp
  with some have 1: "firstIssue (fieldSchema utcEnv messageEmail) (Str ''x'') = Some ''Bad mail''"
    by auto
  have sn: "\<And>s. if ftype shortName = FCheckbox then (\<exists>b. Str s = Bool b)
      else (\<exists>t. Str s = Str t)"
    by (simp add: shortName_facts)
  from validation_message_wins_except_lengths[OF shortName_facts(1) sn[of "[]"], of utcEnv]
    shortName_facts(5)
  have 2: "''Bad'' \<in> set (issues (fieldSchema utcEnv shortName) (Str []))"
    by simp
  have d: "ftype shortName \<in> {FText, FTextarea, FTel}" "minLength shortName = Some 3"
    "length ''ab'' < (3::nat)"
    by (simp_all add: shortName_facts)
  from validation_message_wins_except_lengths[OF shortName_facts(1) sn[of "''ab''"], of utcEnv]
  have "\<forall>s n. Str ''ab'' = Str s \<and> ftype shortName \<in> {FText, FTextarea, FTel} \<and>
              minLength shortName = Some n \<and> length s < n \<longrightarrow>
            minMessage shortName n \<in> set (issues (fieldSchema utcEnv shortName) (Str ''ab''))"
    by blast
  with d have 3: "minMessage shortName 3 \<in>
      set (issues (fieldSchema utcEnv shortName) (Str ''ab''))"
    by blast
  have cn: "if ftype cappedName = FCheckbox then (\<exists>b. Str ''abc'' = Bool b)
      else (\<exists>t. Str ''abc'' = Str t)"
    by (simp add: cappedName_facts)
  have c: "ftype cappedName \<in> {FText, FTextarea, FTel}" "maxLength cappedName = Some 2"
    "(2::nat) < length ''abc''"
    by (simp_all add: cappedName_facts)
  from validation_message_wins_except_lengths[OF cappedName_facts(1) cn, of utcEnv]
  have "\<forall>s n. Str ''abc'' = Str s \<and> ftype cappedName \<in> {FText, FTextarea, FTel} \<and>
              maxLength cappedName = Some n \<and> n < length s \<longrightarrow>
            maxMessage cappedName n \<in> set (issues (fieldSchema utcEnv cappedName) (Str ''abc''))"
    by blast
  with c have 4: "maxMessage cappedName 2 \<in>
      set (issues (fieldSchema utcEnv cappedName) (Str ''abc''))"
    by blast
  have ee: "if ftype emptyMessageEmail = FCheckbox then (\<exists>b. Str ''x'' = Bool b)
      else (\<exists>s. Str ''x'' = Str s)"
    by (simp add: emptyMessageEmail_facts)
  from validation_message_wins_except_lengths[OF emptyMessageEmail_facts(1) ee, of utcEnv]
  have 5: "fieldSchema utcEnv emptyMessageEmail = fieldSchema utcEnv sampleEmail"
    by (simp add: emptyMessageEmail_facts(3))
  have b: "''Bad mail'' \<noteq> []" by simp
  from 1 2 3 4 5 me d c b messageEmail_facts(1,2) shortName_facts(1,5) cappedName_facts(1)
    emptyMessageEmail_facts(1)
  show ?thesis by blast
qed

text \<open>Two fields on which the field's own message does not win: the minimal length of a
  text field reports the built-in text although the field declares a message, and a
  message that is the empty string gives way to the default.\<close>

theorem validation_message_counterexample:
  "validation shortName = Some ''Bad'' \<and>
   firstIssue (fieldSchema utcEnv shortName) (Str ''ab'') =
     Some ''Name must be at least 3 characters'' \<and>
   validation emptyMessageEmail = Some [] \<and>
   firstIssue (fieldSchema utcEnv emptyMessageEmail) (Str ''x'') =
     Some ''Invalid email address''"
proof -
  have e: "ftype emptyMessageEmail = FEmail" "validation emptyMessageEmail = Some []"
    by (simp_all add: emptyMessageEmail_def sampleEmail_def sampleText_def)
  have "firstIssue (fieldSchema utcEnv emptyMessageEmail) (Str ''x'') =
      Some ''Invalid email address''"
    by (simp add: firstIssue_def issues_email e messageOr_def emailRegex_def)
  then show ?thesis
    by (simp add: firstIssue_def shortName_issues shortName_facts e)
qed

section \<open>Fields that are not required\<close>

text \<open>
  Claim C5 fails on the code. The wrapper for a field that is not required lets
  \<^verbatim>\<open>undefined\<close> through and hands every other value, the empty string too, to the rule
  of the field type. An e-mail field, a date field and a text field with a minimal length
  that are not required all report an error on the empty string.
\<close>

theorem optional_fields_reject_empty_string:
  "required optionalEmail = False \<and>
   firstIssue (fieldSchema utcEnv optionalEmail) (Str []) = Some ''Invalid email address'' \<and>
   required optionalDate = False \<and>
   firstIssue (fieldSchema utcEnv optionalDate) (Str []) =
     Some ''Invalid date format (YYYY-MM-DD)'' \<and>
   required optionalNick = False \<and>
   firstIssue (fieldSchema utcEnv optionalNick) (Str []) =
     Some ''Nick must be at least 3 characters'' \<and>
   accepts (fieldSchema utcEnv optionalEmail) Undefined"
proof -
  have em: "ftype optionalEmail = FEmail" "validation optionalEmail = None"
    "required optionalEmail = False"
    by (simp_all add: optionalEmail_def sampleEmail_def sampleText_def)
  have da: "ftype optionalDate = FDate" "validation optionalDate = None"
    "required optionalDate = False"
    by (simp_all add: optionalDate_def sampleDate_def sampleText_def)
  have ni: "ftype optionalNick = FText" "minLength optionalNick = Some 3"
    "maxLength optionalNick = None" "required optionalNick = False"
    "label optionalNick = ''Nick''"
    by (simp_all add: optionalNick_def sampleText_def)
  have 1: "firstIssue (fieldSchema utcEnv optionalEmail) (Str []) =
      Some ''Invalid email address''"
    by (simp add: firstIssue_def issues_email em messageOr_def emailRegex_def)
  have 2: "firstIssue (fieldSchema utcEnv optionalDate) (Str []) =
      Some ''Invalid date format (YYYY-MM-DD)''"
    by (simp add: firstIssue_def issues_date da messageOr_def dateRegex_Nil)
  have 3: "firstIssue (fieldSchema utcEnv optionalNick) (Str []) =
      Some ''Nick must be at least 3 characters''"
    by (simp add: firstIssue_def issues_text ni lengthIssues_def minMessage_def showNat_3)
  have 4: "accepts (fieldSchema utcEnv optionalEmail) Undefined"
    using em
    by (simp add: accepts_def issues_def fieldSchema_def typeSchema_email
        isZodString_def typeNameIncludesOptional_def)
  from 1 2 3 4 em da ni show ?thesis by simp
qed

section \<open>Required fields\<close>







end
